theory Spec2Isabelle
  imports Complex_Main
begin

section \<open>Python values, failures and subscripts\<close>

text \<open>
  The module \<open>mip/lists.py\<close> holds four classes: the caching collections \<open>VarList\<close> and
  \<open>ConstrList\<close>, and the callback views \<open>VVarList\<close> and \<open>VConstrList\<close>. Every raise of the
  source is a value of \<open>error\<close>; a failing operation returns the error together with the
  state reached when the exception left the method.
\<close>

datatype error =
  IndexError | AttributeError | TypeError | ValueError | RecursionError | Exception string

text \<open>
  A Python float that is only handed on to the engine: the source does no arithmetic on
  the bounds or the objective coefficient, it only overwrites bounds by the literals
  \<open>0.0\<close> and \<open>1.0\<close>.
\<close>

datatype pyfloat = Finite real | PosInf | NegInf | NaN

text \<open>A slice object \<open>a:b:c\<close>: its three data attributes, each an integer or \<open>None\<close>.\<close>

datatype slice = Slice (slice_start: "int option") (slice_stop: "int option")
  (slice_step: "int option")

text \<open>
  Attribute access on a slice object. The data attributes of a slice are \<open>start\<close>,
  \<open>stop\<close> and \<open>step\<close>; the name \<open>end\<close>, which the source reads, is not among them and
  raises \<open>AttributeError\<close>.
\<close>

definition slice_attr :: "slice \<Rightarrow> string \<Rightarrow> error + int option" where
  "slice_attr sl a =
     (if a = ''start'' then Inr (slice_start sl)
      else if a = ''stop'' then Inr (slice_stop sl)
      else if a = ''step'' then Inr (slice_step sl)
      else Inl AttributeError)"

text \<open>
  The keys a subscript can receive: a string; an integer (an instance of \<open>int\<close>); a
  slice; an object that is no instance of \<open>int\<close> but converts to an integer through
  \<open>__index__\<close>, which list subscripting accepts and \<open>isinstance(key, int)\<close> rejects;
  anything else.
\<close>

datatype key = KStr string | KInt int | KSlice slice | KIndex int | KOther

text \<open>
  Subscripting a Python list of length \<open>n\<close> by an integer: positions \<open>-n .. -1\<close> count
  from the end, everything outside \<open>-n .. n-1\<close> raises \<open>IndexError\<close> (here \<open>None\<close>).
\<close>

definition py_index :: "nat \<Rightarrow> int \<Rightarrow> nat option" where
  "py_index n i =
     (if 0 \<le> i \<and> i < int n then Some (nat i)
      else if - int n \<le> i \<and> i < 0 then Some (nat (int n + i))
      else None)"

text \<open>
  Subscripting a Python list by a slice: the bounds are clamped as \<open>slice.indices\<close> does,
  a zero step raises \<open>ValueError\<close>, and the selected positions are those of
  \<open>range(start, stop, step)\<close>.
\<close>

definition slice_indices :: "slice \<Rightarrow> int \<Rightarrow> error + (int \<times> int \<times> int)" where
  "slice_indices sl len =
     (let stp = (case slice_step sl of None \<Rightarrow> 1 | Some c \<Rightarrow> c) in
      if stp = 0 then Inl ValueError
      else
        let lower = (if stp < 0 then - 1 else 0);
            upper = (if stp < 0 then len - 1 else len);
            clamp = (\<lambda>a. if a < 0 then max (a + len) lower else min a upper);
            sta = (case slice_start sl of
                     None \<Rightarrow> (if stp < 0 then upper else lower)
                   | Some a \<Rightarrow> clamp a);
            sto = (case slice_stop sl of
                     None \<Rightarrow> (if stp < 0 then lower else upper)
                   | Some b \<Rightarrow> clamp b)
        in Inr (sta, sto, stp))"

definition range_len :: "int \<Rightarrow> int \<Rightarrow> int \<Rightarrow> nat" where
  "range_len sta sto stp =
     (if 0 < stp then (if sta < sto then nat ((sto - sta - 1) div stp + 1) else 0)
      else (if sto < sta then nat ((sta - sto - 1) div (- stp) + 1) else 0))"

definition py_slice :: "'a list \<Rightarrow> slice \<Rightarrow> error + 'a list" where
  "py_slice xs sl =
     (case slice_indices sl (int (length xs)) of
        Inl e \<Rightarrow> Inl e
      | Inr (sta, sto, stp) \<Rightarrow>
          Inr (map (\<lambda>j. xs ! nat (sta + int j * stp)) [0..<range_len sta sto stp]))"

text \<open>The decimal text of an integer, as \<open>'{}'.format\<close> prints it.\<close>

fun str_nat :: "nat \<Rightarrow> string" where
  "str_nat n =
     (if n < 10 then [''0123456789'' ! n]
      else str_nat (n div 10) @ [''0123456789'' ! (n mod 10)])"

declare str_nat.simps [simp del]

definition str_int :: "int \<Rightarrow> string" where
  "str_int i = (if i < 0 then CHR ''-'' # str_nat (nat (- i)) else str_nat (nat i))"


section \<open>The engine interface\<close>

text \<open>
  The solver is an external collaborator. The model keeps what the wrapper can observe of
  it: the calls it received, with their arguments, and the two counts it reports. The
  column and linear-expression structures are opaque to the wrapper and stay type
  parameters.
\<close>

datatype ('c, 'l) engine_call =
    Add_var pyfloat pyfloat pyfloat string "'c option" string
  | Add_constr 'l string
  | Remove_vars "int list"
  | Remove_constrs "int list"

record ('c, 'l) engine =
  cols :: nat
  rows :: nat
  calls :: "('c, 'l) engine_call list"

text \<open>
  Modelled from the spec: the engine's \<open>num_cols\<close> and \<open>num_rows\<close>, missing from the
  sources; they report the engine's live counts.
\<close>

definition num_cols :: "('c, 'l) engine \<Rightarrow> int" where
  "num_cols e = int (cols e)"

definition num_rows :: "('c, 'l) engine \<Rightarrow> int" where
  "num_rows e = int (rows e)"

text \<open>
  Modelled from the spec: the engine's \<open>add_var\<close> and \<open>add_constr\<close>, missing from the
  sources; the new entity's index is implied to be the current count, so the count grows
  by one.
\<close>

definition add_var ::
  "pyfloat \<Rightarrow> pyfloat \<Rightarrow> pyfloat \<Rightarrow> string \<Rightarrow> 'c option \<Rightarrow> string \<Rightarrow>
   ('c, 'l) engine \<Rightarrow> ('c, 'l) engine" where
  "add_var obj lb ub var_type column name e =
     e\<lparr>cols := Suc (cols e), calls := calls e @ [Add_var obj lb ub var_type column name]\<rparr>"

definition add_constr :: "'l \<Rightarrow> string \<Rightarrow> ('c, 'l) engine \<Rightarrow> ('c, 'l) engine" where
  "add_constr lin_expr name e =
     e\<lparr>rows := Suc (rows e), calls := calls e @ [Add_constr lin_expr name]\<rparr>"

text \<open>
  Modelled from the spec: the engine's batch removals \<open>remove_vars\<close> and
  \<open>remove_constrs\<close>, missing from the sources; they take the list of positions to remove,
  and every distinct position of the list that addresses an entity removes it.
\<close>

definition remove_vars :: "int list \<Rightarrow> ('c, 'l) engine \<Rightarrow> ('c, 'l) engine" where
  "remove_vars ps e =
     e\<lparr>cols := cols e - length (remdups (filter (\<lambda>p. 0 \<le> p \<and> p < int (cols e)) ps)),
       calls := calls e @ [Remove_vars ps]\<rparr>"

definition remove_constrs :: "int list \<Rightarrow> ('c, 'l) engine \<Rightarrow> ('c, 'l) engine" where
  "remove_constrs ps e =
     e\<lparr>rows := rows e - length (remdups (filter (\<lambda>p. 0 \<le> p \<and> p < int (rows e)) ps)),
       calls := calls e @ [Remove_constrs ps]\<rparr>"


section \<open>Handles and the state of a model\<close>

text \<open>
  A handle (\<open>Var\<close> or \<open>Constr\<close>) is an object with a mutable \<open>idx\<close> field; the collections
  and their callers share references to it, so handles live in a store addressed by
  references. The back-reference to the model is never read by this module and is left out.
  The state holds the store, the next unused reference, the two cached sequences
  (\<open>VarList.__vars\<close> and \<open>ConstrList.__constrs\<close>) and the engine.
\<close>

type_synonym ref = nat

record ('c, 'l) model =
  idx :: "ref \<Rightarrow> int"
  next_ref :: ref
  vars :: "ref list"
  constrs :: "ref list"
  solver :: "('c, 'l) engine"

type_synonym ('a, 's) result = "(error \<times> 's) + ('a \<times> 's)"

text \<open>
  Modelled from the spec: the constructors \<open>Var(model, i)\<close> and \<open>Constr(model, i)\<close> of
  \<open>mip.entities\<close>, missing from the sources; each builds a new handle object holding the
  given index.
\<close>

definition Var :: "int \<Rightarrow> ('c, 'l) model \<Rightarrow> ref \<times> ('c, 'l) model" where
  "Var i s = (next_ref s, s\<lparr>idx := (idx s)(next_ref s := i), next_ref := Suc (next_ref s)\<rparr>)"

definition Constr :: "int \<Rightarrow> ('c, 'l) model \<Rightarrow> ref \<times> ('c, 'l) model" where
  "Constr i s = (next_ref s, s\<lparr>idx := (idx s)(next_ref s := i), next_ref := Suc (next_ref s)\<rparr>)"

text \<open>What a subscript returns: one handle, a list of handles, or a view.\<close>

record vvarlist =
  v_start :: "int option"
  v_end :: "int option"

datatype item = Handle ref | Handles "ref list" | View vvarlist

definition empty_model :: "('c, 'l) engine \<Rightarrow> ('c, 'l) model" where
  "empty_model e = \<lparr>idx = (\<lambda>_. 0), next_ref = 0, vars = [], constrs = [], solver = e\<rparr>"

definition empty_engine :: "('c, 'l) engine" where
  "empty_engine = \<lparr>cols = 0, rows = 0, calls = []\<rparr>"


section \<open>The loops of \<open>remove\<close>\<close>

text \<open>
  \<open>for i in vlist: iv[i] = 0\<close>: list assignment, with Python's resolution of the
  position.
\<close>

fun remove_mark :: "int list \<Rightarrow> int list \<Rightarrow> error + int list" where
  "remove_mark iv [] = Inr iv"
| "remove_mark iv (i # vlist) =
     (case py_index (length iv) i of
        None \<Rightarrow> Inl IndexError
      | Some k \<Rightarrow> remove_mark (iv[k := 0]) vlist)"

text \<open>
  \<open>for v in self.__vars: if iv[v.idx] == 0: v.idx = -1 else: v.idx = i; i += 1\<close>:
  the walk over the cached sequence that writes the handles' indices in the store.
\<close>

fun remove_renumber ::
  "int list \<Rightarrow> int \<Rightarrow> ref list \<Rightarrow> (ref \<Rightarrow> int) \<Rightarrow> (error \<times> (ref \<Rightarrow> int)) + (ref \<Rightarrow> int)" where
  "remove_renumber iv i [] st = Inr st"
| "remove_renumber iv i (v # vs) st =
     (case py_index (length iv) (st v) of
        None \<Rightarrow> Inl (IndexError, st)
      | Some k \<Rightarrow>
          if iv ! k = 0 then remove_renumber iv i vs (st(v := - 1))
          else remove_renumber iv (i + 1) vs (st(v := i)))"


section \<open>\<open>VarList\<close>\<close>

definition VarList_add ::
  "string \<Rightarrow> string \<Rightarrow> pyfloat \<Rightarrow> pyfloat \<Rightarrow> pyfloat \<Rightarrow> string \<Rightarrow> 'c option \<Rightarrow>
   ('c, 'l) model \<Rightarrow> ref \<times> ('c, 'l) model" where
  "VarList_add BINARY name lb ub obj var_type column s =
     (let name1 = (if name = [] then ''var('' @ str_int (int (length (vars s))) @ '')''
                   else name);
          lb1 = (if var_type = BINARY then Finite 0 else lb);
          ub1 = (if var_type = BINARY then Finite 1 else ub);
          (new_var, s1) = Var (int (length (vars s))) s;
          s2 = s1\<lparr>solver := add_var obj lb1 ub1 var_type column name1 (solver s1)\<rparr>
      in (new_var, s2\<lparr>vars := vars s2 @ [new_var]\<rparr>))"

definition VarList_getitem ::
  "(string \<Rightarrow> ('c, 'l) model \<Rightarrow> (item, ('c, 'l) model) result) \<Rightarrow> key \<Rightarrow>
   ('c, 'l) model \<Rightarrow> (item, ('c, 'l) model) result" where
  "VarList_getitem var_by_name k s =
     (case k of
        KStr n \<Rightarrow> var_by_name n s
      | KInt i \<Rightarrow>
          (case py_index (length (vars s)) i of
             None \<Rightarrow> Inl (IndexError, s)
           | Some j \<Rightarrow> Inr (Handle (vars s ! j), s))
      | KSlice sl \<Rightarrow>
          (case py_slice (vars s) sl of
             Inl e \<Rightarrow> Inl (e, s)
           | Inr hs \<Rightarrow> Inr (Handles hs, s))
      | KIndex i \<Rightarrow>
          (case py_index (length (vars s)) i of
             None \<Rightarrow> Inl (IndexError, s)
           | Some j \<Rightarrow> Inr (Handle (vars s ! j), s))
      | KOther \<Rightarrow> Inl (TypeError, s))"

definition VarList_len :: "('c, 'l) model \<Rightarrow> int" where
  "VarList_len s = int (length (vars s))"

definition VarList_remove ::
  "ref list \<Rightarrow> ('c, 'l) model \<Rightarrow> (error \<times> ('c, 'l) model) + ('c, 'l) model" where
  "VarList_remove hs s =
     (let iv = replicate (length (vars s)) (1::int);
          vlist = sort (map (idx s) hs)
      in case remove_mark iv vlist of
           Inl e \<Rightarrow> Inl (e, s)
         | Inr iv1 \<Rightarrow>
             let s1 = s\<lparr>solver := remove_vars vlist (solver s)\<rparr> in
             (case remove_renumber iv1 0 (vars s1) (idx s1) of
                Inl (e, st) \<Rightarrow> Inl (e, s1\<lparr>idx := st\<rparr>)
              | Inr st \<Rightarrow> Inr (s1\<lparr>idx := st, vars := filter (\<lambda>v. st v \<noteq> - 1) (vars s1)\<rparr>)))"


section \<open>\<open>VVarList\<close>\<close>

definition VVarList_init :: "int option \<Rightarrow> int option \<Rightarrow> ('c, 'l) model \<Rightarrow> vvarlist" where
  "VVarList_init start end s =
     (if start = Some (- 1) then \<lparr>v_start = Some 0, v_end = Some (num_cols (solver s))\<rparr>
      else \<lparr>v_start = start, v_end = end\<rparr>)"

definition VVarList_len :: "vvarlist \<Rightarrow> ('c, 'l) model \<Rightarrow> int" where
  "VVarList_len v s = num_cols (solver s)"

definition VVarList_add ::
  "string \<Rightarrow> vvarlist \<Rightarrow> string \<Rightarrow> pyfloat \<Rightarrow> pyfloat \<Rightarrow> pyfloat \<Rightarrow> string \<Rightarrow> 'c option \<Rightarrow>
   ('c, 'l) model \<Rightarrow> ref \<times> ('c, 'l) model" where
  "VVarList_add BINARY v name lb ub obj var_type column s =
     (let name1 = (if name = [] then ''var('' @ str_int (VVarList_len v s) @ '')''
                   else name);
          lb1 = (if var_type = BINARY then Finite 0 else lb);
          ub1 = (if var_type = BINARY then Finite 1 else ub);
          (new_var, s1) = Var (num_cols (solver s)) s
      in (new_var, s1\<lparr>solver := add_var obj lb1 ub1 var_type column name1 (solver s1)\<rparr>))"

definition VVarList_getitem ::
  "(string \<Rightarrow> ('c, 'l) model \<Rightarrow> (item, ('c, 'l) model) result) \<Rightarrow> vvarlist \<Rightarrow> key \<Rightarrow>
   ('c, 'l) model \<Rightarrow> (item, ('c, 'l) model) result" where
  "VVarList_getitem var_by_name v k s =
     (case k of
        KStr n \<Rightarrow> var_by_name n s
      | KSlice sl \<Rightarrow>
          (case slice_attr sl ''start'' of
             Inl e \<Rightarrow> Inl (e, s)
           | Inr a \<Rightarrow>
               (case slice_attr sl ''end'' of
                  Inl e \<Rightarrow> Inl (e, s)
                | Inr b \<Rightarrow> Inr (View (VVarList_init a b s), s)))
      | KInt key \<Rightarrow>
          (case v_end v of
             None \<Rightarrow> Inl (TypeError, s)
           | Some e \<Rightarrow>
               let key1 = (if key < 0 then e - key else key) in
               if key1 \<ge> e then Inl (IndexError, s)
               else
                 (case v_start v of
                    None \<Rightarrow> Inl (TypeError, s)
                  | Some b \<Rightarrow> (case Var (key1 + b) s of (h, s1) \<Rightarrow> Inr (Handle h, s1))))
      | KIndex i \<Rightarrow> Inl (Exception ''Unknow type'', s)
      | KOther \<Rightarrow> Inl (Exception ''Unknow type'', s))"


section \<open>\<open>ConstrList\<close>\<close>

definition ConstrList_getitem ::
  "(string \<Rightarrow> ('c, 'l) model \<Rightarrow> (item, ('c, 'l) model) result) \<Rightarrow> key \<Rightarrow>
   ('c, 'l) model \<Rightarrow> (item, ('c, 'l) model) result" where
  "ConstrList_getitem constr_by_name k s =
     (case k of
        KStr n \<Rightarrow> constr_by_name n s
      | KInt i \<Rightarrow>
          (case py_index (length (constrs s)) i of
             None \<Rightarrow> Inl (IndexError, s)
           | Some j \<Rightarrow> Inr (Handle (constrs s ! j), s))
      | KSlice sl \<Rightarrow>
          (case py_slice (constrs s) sl of
             Inl e \<Rightarrow> Inl (e, s)
           | Inr hs \<Rightarrow> Inr (Handles hs, s))
      | KIndex i \<Rightarrow>
          (case py_index (length (constrs s)) i of
             None \<Rightarrow> Inl (IndexError, s)
           | Some j \<Rightarrow> Inr (Handle (constrs s ! j), s))
      | KOther \<Rightarrow> Inl (TypeError, s))"

definition ConstrList_add :: "'l \<Rightarrow> string \<Rightarrow> ('c, 'l) model \<Rightarrow> ref \<times> ('c, 'l) model" where
  "ConstrList_add lin_expr name s =
     (let name1 = (if name = [] then ''constr('' @ str_int (int (length (constrs s))) @ '')''
                   else name);
          (new_constr, s1) = Constr (int (length (constrs s))) s;
          s2 = s1\<lparr>solver := add_constr lin_expr name1 (solver s1)\<rparr>
      in (new_constr, s2\<lparr>constrs := constrs s2 @ [new_constr]\<rparr>))"

definition ConstrList_len :: "('c, 'l) model \<Rightarrow> int" where
  "ConstrList_len s = int (length (constrs s))"

definition ConstrList_remove ::
  "ref list \<Rightarrow> ('c, 'l) model \<Rightarrow> (error \<times> ('c, 'l) model) + ('c, 'l) model" where
  "ConstrList_remove hs s =
     (let iv = replicate (length (constrs s)) (1::int);
          clist = sort (map (idx s) hs)
      in case remove_mark iv clist of
           Inl e \<Rightarrow> Inl (e, s)
         | Inr iv1 \<Rightarrow>
             let s1 = s\<lparr>solver := remove_constrs clist (solver s)\<rparr> in
             (case remove_renumber iv1 0 (constrs s1) (idx s1) of
                Inl (e, st) \<Rightarrow> Inl (e, s1\<lparr>idx := st\<rparr>)
              | Inr st \<Rightarrow>
                  Inr (s1\<lparr>idx := st, constrs := filter (\<lambda>c. st c \<noteq> - 1) (constrs s1)\<rparr>)))"


section \<open>\<open>VConstrList\<close>\<close>

text \<open>
  The slice branch of \<open>VConstrList.__getitem__\<close> calls \<open>self[key]\<close> with the same key, so
  the method re-enters itself. The first argument is the number of stack frames left
  before the interpreter's recursion limit: with none left the call raises
  \<open>RecursionError\<close>.
\<close>

fun VConstrList_getitem ::
  "nat \<Rightarrow> (string \<Rightarrow> ('c, 'l) model \<Rightarrow> (item, ('c, 'l) model) result) \<Rightarrow> key \<Rightarrow>
   ('c, 'l) model \<Rightarrow> (item, ('c, 'l) model) result" where
  "VConstrList_getitem 0 constr_by_name k s = Inl (RecursionError, s)"
| "VConstrList_getitem (Suc frames) constr_by_name k s =
     (case k of
        KStr n \<Rightarrow> constr_by_name n s
      | KInt i \<Rightarrow> (case Constr i s of (h, s1) \<Rightarrow> Inr (Handle h, s1))
      | KSlice sl \<Rightarrow> VConstrList_getitem frames constr_by_name (KSlice sl) s
      | KIndex i \<Rightarrow> Inl (Exception ''Use int or string as key'', s)
      | KOther \<Rightarrow> Inl (Exception ''Use int or string as key'', s))"

definition VConstrList_len :: "('c, 'l) model \<Rightarrow> int" where
  "VConstrList_len s = num_rows (solver s)"


section \<open>Sequences of operations and the index invariant\<close>

text \<open>
  A name resolver is a parameter of the subscripts (\<open>var_by_name\<close> and
  \<open>constr_by_name\<close> belong to the owning model). The closed examples use a registry that
  knows no name.
\<close>

definition unresolved :: "string \<Rightarrow> ('c, 'l) model \<Rightarrow> (item, ('c, 'l) model) result" where
  "unresolved n s = Inl (Exception ''name not found'', s)"

text \<open>The state a caller goes on with after \<open>remove\<close>, whether it returned or raised.\<close>

definition state_of :: "(error \<times> 's) + 's \<Rightarrow> 's" where
  "state_of r = (case r of Inl (e, s) \<Rightarrow> s | Inr s \<Rightarrow> s)"

text \<open>
  The calls a client can make on the two caching collections, and the construction of a
  handle outside of them (as a view's subscript does). A step returns the handle the call
  returned, if any, and the next state.
\<close>

datatype ('c, 'l) op =
    Op_add_var string pyfloat pyfloat pyfloat string "'c option"
  | Op_add_constr 'l string
  | Op_remove_vars "ref list"
  | Op_remove_constrs "ref list"
  | Op_new_handle int

fun step :: "string \<Rightarrow> ('c, 'l) op \<Rightarrow> ('c, 'l) model \<Rightarrow> ref option \<times> ('c, 'l) model" where
  "step BINARY (Op_add_var name lb ub obj var_type column) s =
     (case VarList_add BINARY name lb ub obj var_type column s of (h, s1) \<Rightarrow> (Some h, s1))"
| "step BINARY (Op_add_constr lin_expr name) s =
     (case ConstrList_add lin_expr name s of (h, s1) \<Rightarrow> (Some h, s1))"
| "step BINARY (Op_remove_vars hs) s = (None, state_of (VarList_remove hs s))"
| "step BINARY (Op_remove_constrs hs) s = (None, state_of (ConstrList_remove hs s))"
| "step BINARY (Op_new_handle i) s = (case Var i s of (h, s1) \<Rightarrow> (Some h, s1))"

fun run ::
  "string \<Rightarrow> ('c, 'l) op list \<Rightarrow> ('c, 'l) model \<Rightarrow> ref option list \<times> ('c, 'l) model" where
  "run BINARY [] s = ([], s)"
| "run BINARY (x # xs) s =
     (case step BINARY x s of (r, s1) \<Rightarrow>
        (case run BINARY xs s1 of (rs, s2) \<Rightarrow> (r # rs, s2)))"

fun is_add_var :: "('c, 'l) op \<Rightarrow> bool" where
  "is_add_var (Op_add_var name lb ub obj var_type column) = True"
| "is_add_var _ = False"

fun is_add_constr :: "('c, 'l) op \<Rightarrow> bool" where
  "is_add_constr (Op_add_constr lin_expr name) = True"
| "is_add_constr _ = False"

text \<open>The index invariant: \<open>sequence[i].idx == i\<close> at every position of both sequences.\<close>

definition index_inv :: "('c, 'l) model \<Rightarrow> bool" where
  "index_inv s \<longleftrightarrow>
     map (idx s) (vars s) = map int [0..<length (vars s)] \<and>
     map (idx s) (constrs s) = map int [0..<length (constrs s)]"

text \<open>
  What the induction over a sequence of calls carries along with it: no handle object is
  cached twice, and every cached handle has been allocated.
\<close>

definition model_inv :: "('c, 'l) model \<Rightarrow> bool" where
  "model_inv s \<longleftrightarrow>
     index_inv s \<and> distinct (vars s @ constrs s) \<and>
     list_all (\<lambda>r. r < next_ref s) (vars s @ constrs s)"

text \<open>
  The scenario of the specification: five variables \<open>x0 .. x4\<close>, here followed by three
  constraints \<open>c0 .. c2\<close>.
\<close>

definition example_model :: "(unit, unit) model" where
  "example_model =
     snd (run ''B''
       [Op_add_var ''x0'' (Finite 0) PosInf (Finite 0) ''C'' None,
        Op_add_var ''x1'' (Finite 0) PosInf (Finite 0) ''C'' None,
        Op_add_var ''x2'' (Finite 0) PosInf (Finite 0) ''C'' None,
        Op_add_var ''x3'' (Finite 0) PosInf (Finite 0) ''C'' None,
        Op_add_var ''x4'' (Finite 0) PosInf (Finite 0) ''C'' None,
        Op_add_constr () ''c0'',
        Op_add_constr () ''c1'',
        Op_add_constr () ''c2'']
       (empty_model empty_engine))"


section \<open>Adding variables: the bounds of the binary kind\<close>

lemma calls_VarList_add:
  "calls (solver (snd (VarList_add BINARY name lb ub obj var_type column s))) =
     calls (solver s) @
       [Add_var obj (if var_type = BINARY then Finite 0 else lb)
          (if var_type = BINARY then Finite 1 else ub) var_type column
          (if name = [] then ''var('' @ str_int (int (length (vars s))) @ '')'' else name)]"
  by (simp add: VarList_add_def Var_def add_var_def Let_def)

lemma calls_VVarList_add:
  "calls (solver (snd (VVarList_add BINARY v name lb ub obj var_type column s))) =
     calls (solver s) @
       [Add_var obj (if var_type = BINARY then Finite 0 else lb)
          (if var_type = BINARY then Finite 1 else ub) var_type column
          (if name = [] then ''var('' @ str_int (num_cols (solver s)) @ '')'' else name)]"
  by (simp add: VVarList_add_def VVarList_len_def Var_def add_var_def Let_def)

text \<open>
  Claim C3. Whenever \<open>add\<close> is called with the binary kind, on the caching variable
  collection or on the view, the single call it makes to the engine's \<open>add_var\<close> carries
  the lower bound \<open>0.0\<close> and the upper bound \<open>1.0\<close>, whatever \<open>lb\<close> and \<open>ub\<close> the caller
  passed.
\<close>

theorem binary_bounds_forced:
  "var_type = BINARY \<Longrightarrow>
     calls (solver (snd (VarList_add BINARY name lb ub obj var_type column s))) =
       calls (solver s) @
         [Add_var obj (Finite 0) (Finite 1) BINARY column
            (if name = [] then ''var('' @ str_int (VarList_len s) @ '')'' else name)] \<and>
     calls (solver (snd (VVarList_add BINARY v name lb ub obj var_type column s))) =
       calls (solver s) @
         [Add_var obj (Finite 0) (Finite 1) BINARY column
            (if name = [] then ''var('' @ str_int (VVarList_len v s) @ '')'' else name)]"
  by (simp add: calls_VarList_add calls_VVarList_add VarList_len_def VVarList_len_def)

theorem binary_bounds_forced_witness:
  "calls (solver (snd (VarList_add ''B'' ''x'' (Finite (- 3)) PosInf (Finite 2) ''B'' None
       (empty_model (empty_engine :: (unit, unit) engine))))) =
     [Add_var (Finite 2) (Finite 0) (Finite 1) ''B'' None ''x''] \<and>
   calls (solver (snd (VVarList_add ''B'' \<lparr>v_start = Some 0, v_end = Some 0\<rparr> ''x''
       (Finite (- 3)) PosInf (Finite 2) ''B'' None
       (empty_model (empty_engine :: (unit, unit) engine))))) =
     [Add_var (Finite 2) (Finite 0) (Finite 1) ''B'' None ''x'']"
  using binary_bounds_forced [of "''B''" "''B''" "''x''" "Finite (- 3)" PosInf "Finite 2" None
      "empty_model (empty_engine :: (unit, unit) engine)" "\<lparr>v_start = Some 0, v_end = Some 0\<rparr>"]
  by (simp add: empty_model_def empty_engine_def)


section \<open>Subscripts of the views\<close>

text \<open>
  Claim C5. The claim says that \<open>view[-1]\<close> on a view over a non-empty range
  \<open>[start, end)\<close> returns a handle at \<open>end - 1 + start\<close>. The source resolves a negative key
  by \<open>key = self.__end - key\<close>, which for \<open>-1\<close> is \<open>end + 1\<close>, and then raises
  \<open>IndexError\<close> because \<open>end + 1 >= end\<close>: on every view with integer bounds the lookup
  of \<open>-1\<close> fails.
\<close>

theorem view_last_index_raises:
  "VVarList_getitem var_by_name \<lparr>v_start = Some b, v_end = Some e\<rparr> (KInt (- 1)) s =
     Inl (IndexError, s)"
  by (simp add: VVarList_getitem_def)

lemma VConstrList_getitem_slice:
  "VConstrList_getitem frames constr_by_name (KSlice sl) s = Inl (RecursionError, s)"
  by (induction frames) simp_all

text \<open>
  Claim C7. The claim says that a view subscripted by a slice returns a narrower view.
  In the source \<open>VVarList.__getitem__\<close> reads \<open>key.end\<close>, an attribute a slice does not
  have, so every slice raises \<open>AttributeError\<close>; \<open>VConstrList.__getitem__\<close> answers a slice
  by \<open>self[key]\<close>, the same call again, and ends in \<open>RecursionError\<close> whatever the
  recursion limit is.
\<close>

theorem view_slice_raises:
  "VVarList_getitem var_by_name v (KSlice sl) s = Inl (AttributeError, s) \<and>
   VConstrList_getitem frames constr_by_name (KSlice sl) s = Inl (RecursionError, s)"
  by (simp add: VVarList_getitem_def slice_attr_def VConstrList_getitem_slice)


section \<open>The length of a view\<close>

text \<open>
  Claim C6, as stated, fails for a scoped view: the view over \<open>[1, 3)\<close> of an engine
  with five columns has length five, not the width two.
\<close>

theorem scoped_view_len_counterexample:
  "VVarList_init (Some 1) (Some 3)
       (empty_model (empty_engine\<lparr>cols := 5\<rparr> :: (unit, unit) engine)) =
     \<lparr>v_start = Some 1, v_end = Some 3\<rparr> \<and>
   VVarList_len \<lparr>v_start = Some 1, v_end = Some 3\<rparr>
       (empty_model (empty_engine\<lparr>cols := 5\<rparr> :: (unit, unit) engine)) = 5 \<and>
   VVarList_len \<lparr>v_start = Some 1, v_end = Some 3\<rparr>
       (empty_model (empty_engine\<lparr>cols := 5\<rparr> :: (unit, unit) engine)) \<noteq> 3 - 1"
  by (simp add: VVarList_init_def VVarList_len_def num_cols_def empty_model_def empty_engine_def)

text \<open>
  Claim C6, amended. The length of every view of variables, scoped or not, is the
  engine's column count at the time of the call: the bounds stored at construction are
  not consulted, and a column added directly through the engine raises the length by one.
\<close>

theorem view_len_is_num_cols:
  "VVarList_len (VVarList_init start end s0) s = num_cols (solver s) \<and>
   VVarList_len v (s\<lparr>solver := add_var obj lb ub var_type column name (solver s)\<rparr>) =
     VVarList_len v s + 1"
  by (simp add: VVarList_len_def num_cols_def add_var_def)


section \<open>What the marking and the renumbering loop compute\<close>

lemma py_index_in_range: "0 \<le> i \<Longrightarrow> i < int n \<Longrightarrow> py_index n i = Some (nat i)"
  by (simp add: py_index_def)

lemma py_index_bound: "py_index n i = Some k \<Longrightarrow> k < n"
  by (auto simp: py_index_def split: if_splits)

lemma remove_mark_Inr:
  "\<forall>p\<in>set ps. py_index (length iv) p \<noteq> None \<Longrightarrow>
   \<exists>iv'. remove_mark iv ps = Inr iv' \<and> length iv' = length iv \<and>
     (\<forall>k<length iv. iv' ! k =
        (if \<exists>p\<in>set ps. py_index (length iv) p = Some k then 0 else iv ! k))"
proof (induction ps arbitrary: iv)
  case Nil
  then show ?case by simp
next
  case (Cons p ps)
  from Cons.prems obtain j where j: "py_index (length iv) p = Some j" by auto
  then have jn: "j < length iv" by (rule py_index_bound)
  have "\<forall>q\<in>set ps. py_index (length (iv[j := 0])) q \<noteq> None" using Cons.prems by simp
  from Cons.IH [OF this] obtain iv' where
    r: "remove_mark (iv[j := 0]) ps = Inr iv'" and l: "length iv' = length iv"
    and c: "\<forall>k<length iv. iv' ! k =
        (if \<exists>q\<in>set ps. py_index (length iv) q = Some k then 0 else (iv[j := 0]) ! k)"
    by auto
  have "remove_mark iv (p # ps) = Inr iv'" using j r by simp
  moreover have "\<forall>k<length iv. iv' ! k =
        (if \<exists>q\<in>set (p # ps). py_index (length iv) q = Some k then 0 else iv ! k)"
    using c j jn by (auto simp: nth_list_update)
  ultimately show ?case using l by blast
qed

lemma remove_mark_valid:
  "remove_mark iv ps = Inr iv' \<Longrightarrow> \<forall>p\<in>set ps. py_index (length iv) p \<noteq> None"
proof (induction ps arbitrary: iv)
  case Nil
  then show ?case by simp
next
  case (Cons p ps)
  then show ?case by (cases "py_index (length iv) p") fastforce+
qed

lemma remove_renumber_Inr:
  assumes "distinct vs" and "\<forall>v\<in>set vs. 0 \<le> st v \<and> st v < int (length iv)"
  shows "\<exists>st'. remove_renumber iv i vs st = Inr st' \<and>
     (\<forall>r. r \<notin> set vs \<longrightarrow> st' r = st r) \<and>
     (\<forall>v\<in>set vs. iv ! nat (st v) = 0 \<longrightarrow> st' v = - 1) \<and>
     map st' (filter (\<lambda>v. iv ! nat (st v) \<noteq> 0) vs) =
       map (\<lambda>j. i + int j) [0..<length (filter (\<lambda>v. iv ! nat (st v) \<noteq> 0) vs)]"
  using assms
proof (induction vs arbitrary: i st)
  case Nil
  then show ?case by simp
next
  case (Cons v vs)
  let ?keep = "\<lambda>st u. iv ! nat (st u) \<noteq> 0"
  have v: "py_index (length iv) (st v) = Some (nat (st v))"
    using Cons.prems by (simp add: py_index_in_range)
  have nv: "v \<notin> set vs" and d: "distinct vs" using Cons.prems by simp_all
  show ?case
  proof (cases "iv ! nat (st v) = 0")
    case True
    let ?st1 = "st(v := - 1)"
    have same: "\<forall>u\<in>set vs. ?st1 u = st u" using nv by auto
    then have "\<forall>u\<in>set vs. 0 \<le> ?st1 u \<and> ?st1 u < int (length iv)" using Cons.prems by simp
    from Cons.IH [OF d this, of i] obtain st' where
      r: "remove_renumber iv i vs ?st1 = Inr st'"
      and o: "\<forall>r. r \<notin> set vs \<longrightarrow> st' r = ?st1 r"
      and z: "\<forall>u\<in>set vs. iv ! nat (?st1 u) = 0 \<longrightarrow> st' u = - 1"
      and m: "map st' (filter (?keep ?st1) vs) =
        map (\<lambda>j. i + int j) [0..<length (filter (?keep ?st1) vs)]"
      by blast
    have f: "filter (?keep ?st1) vs = filter (?keep st) vs"
      using same by (intro filter_cong) auto
    have 1: "remove_renumber iv i (v # vs) st = Inr st'" using v True r by simp
    have 2: "\<forall>r. r \<notin> set (v # vs) \<longrightarrow> st' r = st r" using o by auto
    have 3: "\<forall>u\<in>set (v # vs). iv ! nat (st u) = 0 \<longrightarrow> st' u = - 1"
      using z same o nv by auto
    have 4: "map st' (filter (?keep st) (v # vs)) =
        map (\<lambda>j. i + int j) [0..<length (filter (?keep st) (v # vs))]"
      using m f True by simp
    from 1 2 3 4 show ?thesis by blast
  next
    case False
    let ?st1 = "st(v := i)"
    have same: "\<forall>u\<in>set vs. ?st1 u = st u" using nv by auto
    then have "\<forall>u\<in>set vs. 0 \<le> ?st1 u \<and> ?st1 u < int (length iv)" using Cons.prems by simp
    from Cons.IH [OF d this, of "i + 1"] obtain st' where
      r: "remove_renumber iv (i + 1) vs ?st1 = Inr st'"
      and o: "\<forall>r. r \<notin> set vs \<longrightarrow> st' r = ?st1 r"
      and z: "\<forall>u\<in>set vs. iv ! nat (?st1 u) = 0 \<longrightarrow> st' u = - 1"
      and m: "map st' (filter (?keep ?st1) vs) =
        map (\<lambda>j. i + 1 + int j) [0..<length (filter (?keep ?st1) vs)]"
      by blast
    have f: "filter (?keep ?st1) vs = filter (?keep st) vs"
      using same by (intro filter_cong) auto
    have 1: "remove_renumber iv i (v # vs) st = Inr st'" using v False r by simp
    have 2: "\<forall>r. r \<notin> set (v # vs) \<longrightarrow> st' r = st r" using o by auto
    have 3: "\<forall>u\<in>set (v # vs). iv ! nat (st u) = 0 \<longrightarrow> st' u = - 1"
      using z same False by auto
    have sv: "st' v = i" using o nv by simp
    have 4: "map st' (filter (?keep st) (v # vs)) =
        map (\<lambda>j. i + int j) [0..<length (filter (?keep st) (v # vs))]"
      using m f False sv by (simp add: map_upt_Suc del: upt_Suc)
    from 1 2 3 4 show ?thesis by blast
  qed
qed

lemma remove_core:
  assumes inv: "map st vs = map int [0..<length vs]"
    and valid: "\<forall>p\<in>set ps. py_index (length vs) p \<noteq> None"
  shows "\<exists>iv1 st'.
     remove_mark (replicate (length vs) 1) ps = Inr iv1 \<and>
     remove_renumber iv1 0 vs st = Inr st' \<and>
     (\<forall>r. r \<notin> set vs \<longrightarrow> st' r = st r) \<and>
     (\<forall>v\<in>set vs. (\<exists>p\<in>set ps. py_index (length vs) p = Some (nat (st v))) \<longrightarrow> st' v = - 1) \<and>
     filter (\<lambda>v. st' v \<noteq> - 1) vs =
       filter (\<lambda>v. \<not> (\<exists>p\<in>set ps. py_index (length vs) p = Some (nat (st v)))) vs \<and>
     map st' (filter (\<lambda>v. st' v \<noteq> - 1) vs) =
       map int [0..<length (filter (\<lambda>v. st' v \<noteq> - 1) vs)]"
proof -
  let ?n = "length vs"
  let ?hit = "\<lambda>k. \<exists>p\<in>set ps. py_index ?n p = Some k"
  have "distinct (map st vs)" by (simp add: inv distinct_map)
  then have d: "distinct vs" by (simp add: distinct_map)
  have rng: "\<forall>v\<in>set vs. 0 \<le> st v \<and> st v < int ?n"
  proof
    fix v assume "v \<in> set vs"
    then have "st v \<in> set (map st vs)" by simp
    then show "0 \<le> st v \<and> st v < int ?n" unfolding inv by auto
  qed
  from remove_mark_Inr [of ps "replicate ?n 1"] valid obtain iv1 where
    m: "remove_mark (replicate ?n 1) ps = Inr iv1" and l: "length iv1 = ?n"
    and c: "\<forall>k<?n. iv1 ! k = (if ?hit k then 0 else (1::int))"
    by auto
  have z: "\<forall>v\<in>set vs. (iv1 ! nat (st v) = 0) = ?hit (nat (st v))"
  proof
    fix v assume "v \<in> set vs"
    with rng have "nat (st v) < ?n" by auto
    with c show "(iv1 ! nat (st v) = 0) = ?hit (nat (st v))" by simp
  qed
  from remove_renumber_Inr [OF d, of st iv1 0] rng l obtain st' where
    r: "remove_renumber iv1 0 vs st = Inr st'"
    and o: "\<forall>r. r \<notin> set vs \<longrightarrow> st' r = st r"
    and g: "\<forall>v\<in>set vs. iv1 ! nat (st v) = 0 \<longrightarrow> st' v = - 1"
    and k: "map st' (filter (\<lambda>v. iv1 ! nat (st v) \<noteq> 0) vs) =
       map (\<lambda>j. 0 + int j) [0..<length (filter (\<lambda>v. iv1 ! nat (st v) \<noteq> 0) vs)]"
    by auto
  let ?kept = "filter (\<lambda>v. iv1 ! nat (st v) \<noteq> 0) vs"
  have pos: "\<forall>v\<in>set ?kept. 0 \<le> st' v"
  proof
    fix v assume "v \<in> set ?kept"
    then have "st' v \<in> set (map st' ?kept)" by simp
    then show "0 \<le> st' v" unfolding k by auto
  qed
  have f1: "filter (\<lambda>v. st' v \<noteq> - 1) vs = ?kept"
  proof (rule filter_cong [OF refl])
    fix v assume v: "v \<in> set vs"
    show "(st' v \<noteq> - 1) = (iv1 ! nat (st v) \<noteq> 0)"
    proof (cases "iv1 ! nat (st v) = 0")
      case True
      with g v show ?thesis by simp
    next
      case False
      with v have "v \<in> set ?kept" by simp
      with pos have "0 \<le> st' v" by blast
      with False show ?thesis by simp
    qed
  qed
  have f2: "?kept = filter (\<lambda>v. \<not> ?hit (nat (st v))) vs"
    using z by (intro filter_cong) auto
  have 4: "\<forall>v\<in>set vs. ?hit (nat (st v)) \<longrightarrow> st' v = - 1" using g z by blast
  have 6: "map st' (filter (\<lambda>v. st' v \<noteq> - 1) vs) =
       map int [0..<length (filter (\<lambda>v. st' v \<noteq> - 1) vs)]"
    using k unfolding f1 by simp
  have 5: "filter (\<lambda>v. st' v \<noteq> - 1) vs = filter (\<lambda>v. \<not> ?hit (nat (st v))) vs"
    by (rule trans [OF f1 f2])
  from m r o 4 5 6 show ?thesis by blast
qed


section \<open>\<open>remove\<close> on a collection that satisfies the index invariant\<close>

lemma example_model_vars: "vars example_model = [0, 1, 2, 3, 4]"
  by (simp add: example_model_def empty_model_def empty_engine_def VarList_add_def
      ConstrList_add_def Var_def Constr_def Let_def)

lemma example_model_constrs: "constrs example_model = [5, 6, 7]"
  by (simp add: example_model_def empty_model_def empty_engine_def VarList_add_def
      ConstrList_add_def Var_def Constr_def Let_def)

lemma example_model_idx:
  "map (idx example_model) [0, 1, 2, 3, 4, 5, 6, 7] = [0, 1, 2, 3, 4, 0, 1, 2]"
  by (simp add: example_model_def empty_model_def empty_engine_def VarList_add_def
      ConstrList_add_def Var_def Constr_def Let_def)

lemma VarList_remove_Inr:
  assumes inv: "map (idx s) (vars s) = map int [0..<length (vars s)]"
    and valid: "\<forall>h\<in>set hs. py_index (length (vars s)) (idx s h) \<noteq> None"
  shows "\<exists>st'.
     VarList_remove hs s =
       Inr (s\<lparr>solver := remove_vars (sort (map (idx s) hs)) (solver s), idx := st',
              vars := filter (\<lambda>v. st' v \<noteq> - 1) (vars s)\<rparr>) \<and>
     (\<forall>r. r \<notin> set (vars s) \<longrightarrow> st' r = idx s r) \<and>
     (\<forall>v\<in>set (vars s).
        (\<exists>h\<in>set hs. py_index (length (vars s)) (idx s h) = Some (nat (idx s v))) \<longrightarrow>
        st' v = - 1) \<and>
     filter (\<lambda>v. st' v \<noteq> - 1) (vars s) =
       filter (\<lambda>v. \<not> (\<exists>h\<in>set hs.
          py_index (length (vars s)) (idx s h) = Some (nat (idx s v)))) (vars s) \<and>
     map st' (filter (\<lambda>v. st' v \<noteq> - 1) (vars s)) =
       map int [0..<length (filter (\<lambda>v. st' v \<noteq> - 1) (vars s))]"
proof -
  let ?ps = "sort (map (idx s) hs)"
  have "\<forall>p\<in>set ?ps. py_index (length (vars s)) p \<noteq> None" using valid by auto
  from remove_core [OF inv this] obtain iv1 st' where
    m: "remove_mark (replicate (length (vars s)) 1) ?ps = Inr iv1"
    and r: "remove_renumber iv1 0 (vars s) (idx s) = Inr st'"
    and o: "\<forall>r. r \<notin> set (vars s) \<longrightarrow> st' r = idx s r"
    and g: "\<forall>v\<in>set (vars s).
        (\<exists>p\<in>set ?ps. py_index (length (vars s)) p = Some (nat (idx s v))) \<longrightarrow> st' v = - 1"
    and f: "filter (\<lambda>v. st' v \<noteq> - 1) (vars s) =
       filter (\<lambda>v. \<not> (\<exists>p\<in>set ?ps. py_index (length (vars s)) p = Some (nat (idx s v))))
         (vars s)"
    and k: "map st' (filter (\<lambda>v. st' v \<noteq> - 1) (vars s)) =
       map int [0..<length (filter (\<lambda>v. st' v \<noteq> - 1) (vars s))]"
    by blast
  have 1: "VarList_remove hs s =
       Inr (s\<lparr>solver := remove_vars ?ps (solver s), idx := st',
              vars := filter (\<lambda>v. st' v \<noteq> - 1) (vars s)\<rparr>)"
    using m r by (simp add: VarList_remove_def Let_def)
  have 3: "\<forall>v\<in>set (vars s).
        (\<exists>h\<in>set hs. py_index (length (vars s)) (idx s h) = Some (nat (idx s v))) \<longrightarrow>
        st' v = - 1"
    using g by auto
  have 4: "filter (\<lambda>v. st' v \<noteq> - 1) (vars s) =
       filter (\<lambda>v. \<not> (\<exists>h\<in>set hs.
          py_index (length (vars s)) (idx s h) = Some (nat (idx s v)))) (vars s)"
    unfolding f by (intro filter_cong) auto
  from 1 o 3 4 k show ?thesis by blast
qed

lemma ConstrList_remove_Inr:
  assumes inv: "map (idx s) (constrs s) = map int [0..<length (constrs s)]"
    and valid: "\<forall>h\<in>set hs. py_index (length (constrs s)) (idx s h) \<noteq> None"
  shows "\<exists>st'.
     ConstrList_remove hs s =
       Inr (s\<lparr>solver := remove_constrs (sort (map (idx s) hs)) (solver s), idx := st',
              constrs := filter (\<lambda>v. st' v \<noteq> - 1) (constrs s)\<rparr>) \<and>
     (\<forall>r. r \<notin> set (constrs s) \<longrightarrow> st' r = idx s r) \<and>
     (\<forall>v\<in>set (constrs s).
        (\<exists>h\<in>set hs. py_index (length (constrs s)) (idx s h) = Some (nat (idx s v))) \<longrightarrow>
        st' v = - 1) \<and>
     filter (\<lambda>v. st' v \<noteq> - 1) (constrs s) =
       filter (\<lambda>v. \<not> (\<exists>h\<in>set hs.
          py_index (length (constrs s)) (idx s h) = Some (nat (idx s v)))) (constrs s) \<and>
     map st' (filter (\<lambda>v. st' v \<noteq> - 1) (constrs s)) =
       map int [0..<length (filter (\<lambda>v. st' v \<noteq> - 1) (constrs s))]"
proof -
  let ?ps = "sort (map (idx s) hs)"
  have "\<forall>p\<in>set ?ps. py_index (length (constrs s)) p \<noteq> None" using valid by auto
  from remove_core [OF inv this] obtain iv1 st' where
    m: "remove_mark (replicate (length (constrs s)) 1) ?ps = Inr iv1"
    and r: "remove_renumber iv1 0 (constrs s) (idx s) = Inr st'"
    and o: "\<forall>r. r \<notin> set (constrs s) \<longrightarrow> st' r = idx s r"
    and g: "\<forall>v\<in>set (constrs s).
        (\<exists>p\<in>set ?ps. py_index (length (constrs s)) p = Some (nat (idx s v))) \<longrightarrow> st' v = - 1"
    and f: "filter (\<lambda>v. st' v \<noteq> - 1) (constrs s) =
       filter (\<lambda>v. \<not> (\<exists>p\<in>set ?ps. py_index (length (constrs s)) p = Some (nat (idx s v))))
         (constrs s)"
    and k: "map st' (filter (\<lambda>v. st' v \<noteq> - 1) (constrs s)) =
       map int [0..<length (filter (\<lambda>v. st' v \<noteq> - 1) (constrs s))]"
    by blast
  have 1: "ConstrList_remove hs s =
       Inr (s\<lparr>solver := remove_constrs ?ps (solver s), idx := st',
              constrs := filter (\<lambda>v. st' v \<noteq> - 1) (constrs s)\<rparr>)"
    using m r by (simp add: ConstrList_remove_def Let_def)
  have 3: "\<forall>v\<in>set (constrs s).
        (\<exists>h\<in>set hs. py_index (length (constrs s)) (idx s h) = Some (nat (idx s v))) \<longrightarrow>
        st' v = - 1"
    using g by auto
  have 4: "filter (\<lambda>v. st' v \<noteq> - 1) (constrs s) =
       filter (\<lambda>v. \<not> (\<exists>h\<in>set hs.
          py_index (length (constrs s)) (idx s h) = Some (nat (idx s v)))) (constrs s)"
    unfolding f by (intro filter_cong) auto
  from 1 o 3 4 k show ?thesis by blast
qed


lemma inv_range:
  assumes inv: "map st vs = map int [0..<length vs]" and v: "v \<in> set vs"
  shows "0 \<le> st v \<and> st v < int (length vs)"
proof -
  from v have "st v \<in> set (map st vs)" by simp
  then show ?thesis unfolding inv by auto
qed

lemma inv_inj:
  assumes inv: "map st vs = map int [0..<length vs]"
  shows "distinct vs \<and> inj_on st (set vs)"
proof -
  have "distinct (map st vs)" by (simp add: inv distinct_map)
  then show ?thesis by (simp add: distinct_map)
qed

lemma live_handles:
  assumes inv: "map st vs = map int [0..<length vs]" and sub: "set hs \<subseteq> set vs"
  shows "\<forall>h\<in>set hs. py_index (length vs) (st h) \<noteq> None"
    and "\<forall>v\<in>set vs. (\<exists>h\<in>set hs. py_index (length vs) (st h) = Some (nat (st v))) = (v \<in> set hs)"
    and "length (filter (\<lambda>v. v \<notin> set hs) vs) = length vs - card (set hs)"
proof -
  have rng: "\<And>v. v \<in> set vs \<Longrightarrow> py_index (length vs) (st v) = Some (nat (st v))"
    using inv_range [OF inv] by (simp add: py_index_in_range)
  show "\<forall>h\<in>set hs. py_index (length vs) (st h) \<noteq> None" using rng sub by auto
  have inj: "inj_on st (set vs)" and d: "distinct vs" using inv_inj [OF inv] by simp_all
  show "\<forall>v\<in>set vs. (\<exists>h\<in>set hs. py_index (length vs) (st h) = Some (nat (st v))) = (v \<in> set hs)"
  proof
    fix v assume v: "v \<in> set vs"
    show "(\<exists>h\<in>set hs. py_index (length vs) (st h) = Some (nat (st v))) = (v \<in> set hs)"
    proof
      assume "\<exists>h\<in>set hs. py_index (length vs) (st h) = Some (nat (st v))"
      then obtain h where h: "h \<in> set hs" and e: "py_index (length vs) (st h) = Some (nat (st v))"
        by blast
      from h sub have hv: "h \<in> set vs" by auto
      with e rng have "nat (st h) = nat (st v)" by simp
      moreover have "0 \<le> st h" "0 \<le> st v" using inv_range [OF inv] hv v by simp_all
      ultimately have "st h = st v" by simp
      with inj hv v have "h = v" by (simp add: inj_on_def)
      with h show "v \<in> set hs" by simp
    next
      assume "v \<in> set hs"
      with rng v show "\<exists>h\<in>set hs. py_index (length vs) (st h) = Some (nat (st v))" by blast
    qed
  qed
  have "set (filter (\<lambda>v. v \<notin> set hs) vs) = set vs - set hs" by auto
  moreover have "distinct (filter (\<lambda>v. v \<notin> set hs) vs)" using d by simp
  ultimately have "length (filter (\<lambda>v. v \<notin> set hs) vs) = card (set vs - set hs)"
    by (metis distinct_card)
  also have "\<dots> = card (set vs) - card (set hs)" using sub by (simp add: card_Diff_subset)
  also have "card (set vs) = length vs" using d by (rule distinct_card)
  finally show "length (filter (\<lambda>v. v \<notin> set hs) vs) = length vs - card (set hs)" .
qed

lemma VarList_remove_live:
  assumes inv: "map (idx s) (vars s) = map int [0..<length (vars s)]"
    and sub: "set hs \<subseteq> set (vars s)"
  shows "\<exists>s'. VarList_remove hs s = Inr s' \<and> (\<forall>h\<in>set hs. idx s' h = - 1) \<and>
     vars s' = filter (\<lambda>v. v \<notin> set hs) (vars s) \<and>
     map (idx s') (vars s') = map int [0..<length (vars s')] \<and>
     VarList_len s' = VarList_len s - int (card (set hs))"
proof -
  note L = live_handles [OF inv sub]
  from VarList_remove_Inr [OF inv L(1)] obtain st' where
    1: "VarList_remove hs s =
       Inr (s\<lparr>solver := remove_vars (sort (map (idx s) hs)) (solver s), idx := st',
              vars := filter (\<lambda>v. st' v \<noteq> - 1) (vars s)\<rparr>)"
    and g: "\<forall>v\<in>set (vars s).
        (\<exists>h\<in>set hs. py_index (length (vars s)) (idx s h) = Some (nat (idx s v))) \<longrightarrow>
        st' v = - 1"
    and f: "filter (\<lambda>v. st' v \<noteq> - 1) (vars s) =
       filter (\<lambda>v. \<not> (\<exists>h\<in>set hs.
          py_index (length (vars s)) (idx s h) = Some (nat (idx s v)))) (vars s)"
    and k: "map st' (filter (\<lambda>v. st' v \<noteq> - 1) (vars s)) =
       map int [0..<length (filter (\<lambda>v. st' v \<noteq> - 1) (vars s))]"
    by blast
  have f': "filter (\<lambda>v. st' v \<noteq> - 1) (vars s) = filter (\<lambda>v. v \<notin> set hs) (vars s)"
    unfolding f using L(2) by (intro filter_cong) auto
  have a: "\<forall>h\<in>set hs. st' h = - 1" using g L(2) sub by blast
  have "card (set hs) \<le> length (vars s)"
    using sub by (metis card_length card_mono List.finite_set le_trans)
  then have n: "int (length (filter (\<lambda>v. v \<notin> set hs) (vars s))) =
      int (length (vars s)) - int (card (set hs))"
    using L(3) by simp
  show ?thesis
    using 1 a f' k n by (auto simp: VarList_len_def)
qed

lemma ConstrList_remove_live:
  assumes inv: "map (idx s) (constrs s) = map int [0..<length (constrs s)]"
    and sub: "set hs \<subseteq> set (constrs s)"
  shows "\<exists>s'. ConstrList_remove hs s = Inr s' \<and> (\<forall>h\<in>set hs. idx s' h = - 1) \<and>
     constrs s' = filter (\<lambda>v. v \<notin> set hs) (constrs s) \<and>
     map (idx s') (constrs s') = map int [0..<length (constrs s')] \<and>
     ConstrList_len s' = ConstrList_len s - int (card (set hs))"
proof -
  note L = live_handles [OF inv sub]
  from ConstrList_remove_Inr [OF inv L(1)] obtain st' where
    1: "ConstrList_remove hs s =
       Inr (s\<lparr>solver := remove_constrs (sort (map (idx s) hs)) (solver s), idx := st',
              constrs := filter (\<lambda>v. st' v \<noteq> - 1) (constrs s)\<rparr>)"
    and g: "\<forall>v\<in>set (constrs s).
        (\<exists>h\<in>set hs. py_index (length (constrs s)) (idx s h) = Some (nat (idx s v))) \<longrightarrow>
        st' v = - 1"
    and f: "filter (\<lambda>v. st' v \<noteq> - 1) (constrs s) =
       filter (\<lambda>v. \<not> (\<exists>h\<in>set hs.
          py_index (length (constrs s)) (idx s h) = Some (nat (idx s v)))) (constrs s)"
    and k: "map st' (filter (\<lambda>v. st' v \<noteq> - 1) (constrs s)) =
       map int [0..<length (filter (\<lambda>v. st' v \<noteq> - 1) (constrs s))]"
    by blast
  have f': "filter (\<lambda>v. st' v \<noteq> - 1) (constrs s) = filter (\<lambda>v. v \<notin> set hs) (constrs s)"
    unfolding f using L(2) by (intro filter_cong) auto
  have a: "\<forall>h\<in>set hs. st' h = - 1" using g L(2) sub by blast
  have "card (set hs) \<le> length (constrs s)"
    using sub by (metis card_length card_mono List.finite_set le_trans)
  then have n: "int (length (filter (\<lambda>v. v \<notin> set hs) (constrs s))) =
      int (length (constrs s)) - int (card (set hs))"
    using L(3) by simp
  show ?thesis
    using 1 a f' k n by (auto simp: ConstrList_len_def)
qed

text \<open>
  Claim C1. On a caching collection whose handles satisfy the index invariant, \<open>remove\<close>
  of a list of cached handles returns; afterwards every handle of the list has index
  \<open>-1\<close>, the sequence is the old one without those handles, in the old order, the
  survivors carry the indices \<open>0, 1, 2, ...\<close> in that order, and the length has dropped by
  the number of distinct handles removed. The same holds for variables and constraints.
  The witness is the scenario of the specification: of \<open>x0 .. x4\<close> the handles \<open>x1\<close> and
  \<open>x3\<close> are removed.
\<close>

theorem remove_reindexes:
  "(map (idx s) (vars s) = map int [0..<length (vars s)] \<and> set hs \<subseteq> set (vars s) \<longrightarrow>
      (\<exists>s'. VarList_remove hs s = Inr s' \<and> (\<forall>h\<in>set hs. idx s' h = - 1) \<and>
         vars s' = filter (\<lambda>v. v \<notin> set hs) (vars s) \<and>
         map (idx s') (vars s') = map int [0..<length (vars s')] \<and>
         VarList_len s' = VarList_len s - int (card (set hs)))) \<and>
   (map (idx s) (constrs s) = map int [0..<length (constrs s)] \<and> set cs \<subseteq> set (constrs s) \<longrightarrow>
      (\<exists>s'. ConstrList_remove cs s = Inr s' \<and> (\<forall>c\<in>set cs. idx s' c = - 1) \<and>
         constrs s' = filter (\<lambda>c. c \<notin> set cs) (constrs s) \<and>
         map (idx s') (constrs s') = map int [0..<length (constrs s')] \<and>
         ConstrList_len s' = ConstrList_len s - int (card (set cs))))"
  using VarList_remove_live [of s hs] ConstrList_remove_live [of s cs] by blast

theorem remove_reindexes_witness:
  "(\<exists>s'. VarList_remove [1, 3] example_model = Inr s' \<and>
      idx s' 1 = - 1 \<and> idx s' 3 = - 1 \<and> vars s' = [0, 2, 4] \<and>
      map (idx s') [0, 2, 4] = [0, 1, 2] \<and> VarList_len s' = 3) \<and>
   (\<exists>s'. ConstrList_remove [6] example_model = Inr s' \<and>
      idx s' 6 = - 1 \<and> constrs s' = [5, 7] \<and>
      map (idx s') [5, 7] = [0, 1] \<and> ConstrList_len s' = 2)"
proof -
  have i: "map (idx example_model) (vars example_model) =
      map int [0..<length (vars example_model)]"
    and j: "map (idx example_model) (constrs example_model) =
      map int [0..<length (constrs example_model)]"
    using example_model_idx by (simp_all add: example_model_vars example_model_constrs upt_rec)
  have a: "set [1, 3] \<subseteq> set (vars example_model)"
    and b: "set [6] \<subseteq> set (constrs example_model)"
    by (simp_all add: example_model_vars example_model_constrs)
  from remove_reindexes [of example_model "[1, 3]" "[6]"] i j a b
  obtain s1 s2 where
    1: "VarList_remove [1, 3] example_model = Inr s1" "\<forall>h\<in>set [1, 3]. idx s1 h = - 1"
       "vars s1 = filter (\<lambda>v. v \<notin> set [1, 3]) (vars example_model)"
       "map (idx s1) (vars s1) = map int [0..<length (vars s1)]"
       "VarList_len s1 = VarList_len example_model - int (card (set [1::nat, 3]))"
    and 2: "ConstrList_remove [6] example_model = Inr s2" "\<forall>h\<in>set [6]. idx s2 h = - 1"
       "constrs s2 = filter (\<lambda>v. v \<notin> set [6]) (constrs example_model)"
       "map (idx s2) (constrs s2) = map int [0..<length (constrs s2)]"
       "ConstrList_len s2 = ConstrList_len example_model - int (card (set [6::nat]))"
    by blast
  have v: "vars s1 = [0, 2, 4]" using 1(3) by (simp add: example_model_vars)
  have c: "constrs s2 = [5, 7]" using 2(3) by (simp add: example_model_constrs)
  have m1: "map (idx s1) [0, 2, 4] = [0, 1, 2]" using 1(4) unfolding v by (simp add: upt_rec)
  have m2: "map (idx s2) [5, 7] = [0, 1]" using 2(4) unfolding c by (simp add: upt_rec)
  have l1: "VarList_len s1 = 3" using 1(5) by (simp add: VarList_len_def example_model_vars)
  have l2: "ConstrList_len s2 = 2"
    using 2(5) by (simp add: ConstrList_len_def example_model_constrs)
  from 1(1,2) v m1 l1 2(1,2) c m2 l2 show ?thesis by simp
qed


section \<open>The invariant along a sequence of calls\<close>

lemma VarList_add_fields:
  "fst (VarList_add BINARY name lb ub obj var_type column s) = next_ref s"
  "vars (snd (VarList_add BINARY name lb ub obj var_type column s)) = vars s @ [next_ref s]"
  "constrs (snd (VarList_add BINARY name lb ub obj var_type column s)) = constrs s"
  "idx (snd (VarList_add BINARY name lb ub obj var_type column s)) =
     (idx s)(next_ref s := int (length (vars s)))"
  "next_ref (snd (VarList_add BINARY name lb ub obj var_type column s)) = Suc (next_ref s)"
  by (simp_all add: VarList_add_def Var_def Let_def)

lemma ConstrList_add_fields:
  "fst (ConstrList_add lin_expr name s) = next_ref s"
  "vars (snd (ConstrList_add lin_expr name s)) = vars s"
  "constrs (snd (ConstrList_add lin_expr name s)) = constrs s @ [next_ref s]"
  "idx (snd (ConstrList_add lin_expr name s)) = (idx s)(next_ref s := int (length (constrs s)))"
  "next_ref (snd (ConstrList_add lin_expr name s)) = Suc (next_ref s)"
  by (simp_all add: ConstrList_add_def Constr_def Let_def)

lemma Var_fields:
  "fst (Var i s) = next_ref s"
  "vars (snd (Var i s)) = vars s"
  "constrs (snd (Var i s)) = constrs s"
  "idx (snd (Var i s)) = (idx s)(next_ref s := i)"
  "next_ref (snd (Var i s)) = Suc (next_ref s)"
  by (simp_all add: Var_def)

lemma fresh_not_cached:
  assumes "list_all (\<lambda>r. r < (n::nat)) xs"
  shows "n \<notin> set xs"
  using assms by (auto simp: list_all_iff)

lemma list_all_Suc: "list_all (\<lambda>r. r < n) xs \<Longrightarrow> list_all (\<lambda>r. r < Suc n) xs"
  by (auto simp: list_all_iff)

lemma model_inv_VarList_add:
  assumes "model_inv s"
  shows "model_inv (snd (VarList_add BINARY name lb ub obj var_type column s))"
proof -
  from assms have i: "map (idx s) (vars s) = map int [0..<length (vars s)]"
    and j: "map (idx s) (constrs s) = map int [0..<length (constrs s)]"
    and d: "distinct (vars s @ constrs s)"
    and a: "list_all (\<lambda>r. r < next_ref s) (vars s @ constrs s)"
    by (simp_all add: model_inv_def index_inv_def)
  from fresh_not_cached [OF a] have n: "next_ref s \<notin> set (vars s)" "next_ref s \<notin> set (constrs s)"
    by simp_all
  show ?thesis
    unfolding model_inv_def index_inv_def VarList_add_fields
    using i j d n list_all_Suc [OF a] by (simp add: map_fun_upd)
qed

lemma model_inv_ConstrList_add:
  assumes "model_inv s"
  shows "model_inv (snd (ConstrList_add lin_expr name s))"
proof -
  from assms have i: "map (idx s) (vars s) = map int [0..<length (vars s)]"
    and j: "map (idx s) (constrs s) = map int [0..<length (constrs s)]"
    and d: "distinct (vars s @ constrs s)"
    and a: "list_all (\<lambda>r. r < next_ref s) (vars s @ constrs s)"
    by (simp_all add: model_inv_def index_inv_def)
  from fresh_not_cached [OF a] have n: "next_ref s \<notin> set (vars s)" "next_ref s \<notin> set (constrs s)"
    by simp_all
  show ?thesis
    unfolding model_inv_def index_inv_def ConstrList_add_fields
    using i j d n list_all_Suc [OF a] by (simp add: map_fun_upd)
qed

lemma model_inv_Var:
  assumes "model_inv s"
  shows "model_inv (snd (Var i s))"
proof -
  from assms have i: "map (idx s) (vars s) = map int [0..<length (vars s)]"
    and j: "map (idx s) (constrs s) = map int [0..<length (constrs s)]"
    and d: "distinct (vars s @ constrs s)"
    and a: "list_all (\<lambda>r. r < next_ref s) (vars s @ constrs s)"
    by (simp_all add: model_inv_def index_inv_def)
  from fresh_not_cached [OF a] have n: "next_ref s \<notin> set (vars s)" "next_ref s \<notin> set (constrs s)"
    by simp_all
  show ?thesis
    unfolding model_inv_def index_inv_def Var_fields
    using i j d n list_all_Suc [OF a] by (simp add: map_fun_upd)
qed

lemma remove_mark_Inl:
  assumes "\<not> (\<forall>p\<in>set ps. py_index (length iv) p \<noteq> None)"
  shows "\<exists>e. remove_mark iv ps = Inl e"
proof (cases "remove_mark iv ps")
  case (Inl e)
  then show ?thesis by blast
next
  case (Inr iv')
  from remove_mark_valid [OF this] assms show ?thesis by blast
qed

lemma model_inv_VarList_remove:
  assumes m: "model_inv s"
  shows "model_inv (state_of (VarList_remove hs s))"
proof (cases "\<forall>h\<in>set hs. py_index (length (vars s)) (idx s h) \<noteq> None")
  case False
  then have "\<not> (\<forall>p\<in>set (sort (map (idx s) hs)).
      py_index (length (replicate (length (vars s)) (1::int))) p \<noteq> None)"
    by auto
  from remove_mark_Inl [OF this] obtain e where
    "remove_mark (replicate (length (vars s)) 1) (sort (map (idx s) hs)) = Inl e" by blast
  then have "VarList_remove hs s = Inl (e, s)" by (simp add: VarList_remove_def Let_def)
  with m show ?thesis by (simp add: state_of_def)
next
  case True
  from m have i: "map (idx s) (vars s) = map int [0..<length (vars s)]"
    and j: "map (idx s) (constrs s) = map int [0..<length (constrs s)]"
    and d: "distinct (vars s @ constrs s)"
    and a: "list_all (\<lambda>r. r < next_ref s) (vars s @ constrs s)"
    by (simp_all add: model_inv_def index_inv_def)
  from VarList_remove_Inr [OF i True] obtain st' where
    1: "VarList_remove hs s =
       Inr (s\<lparr>solver := remove_vars (sort (map (idx s) hs)) (solver s), idx := st',
              vars := filter (\<lambda>v. st' v \<noteq> - 1) (vars s)\<rparr>)"
    and o: "\<forall>r. r \<notin> set (vars s) \<longrightarrow> st' r = idx s r"
    and k: "map st' (filter (\<lambda>v. st' v \<noteq> - 1) (vars s)) =
       map int [0..<length (filter (\<lambda>v. st' v \<noteq> - 1) (vars s))]"
    by blast
  have "map st' (constrs s) = map (idx s) (constrs s)"
    using o d by (intro map_cong) auto
  with j have c: "map st' (constrs s) = map int [0..<length (constrs s)]" by simp
  have d': "distinct (filter (\<lambda>v. st' v \<noteq> - 1) (vars s) @ constrs s)" using d by auto
  have a': "list_all (\<lambda>r. r < next_ref s) (filter (\<lambda>v. st' v \<noteq> - 1) (vars s) @ constrs s)"
    using a by (auto simp: list_all_iff)
  show ?thesis
    unfolding 1 using k c d' a' by (simp add: state_of_def model_inv_def index_inv_def)
qed

lemma model_inv_ConstrList_remove:
  assumes m: "model_inv s"
  shows "model_inv (state_of (ConstrList_remove hs s))"
proof (cases "\<forall>h\<in>set hs. py_index (length (constrs s)) (idx s h) \<noteq> None")
  case False
  then have "\<not> (\<forall>p\<in>set (sort (map (idx s) hs)).
      py_index (length (replicate (length (constrs s)) (1::int))) p \<noteq> None)"
    by auto
  from remove_mark_Inl [OF this] obtain e where
    "remove_mark (replicate (length (constrs s)) 1) (sort (map (idx s) hs)) = Inl e" by blast
  then have "ConstrList_remove hs s = Inl (e, s)" by (simp add: ConstrList_remove_def Let_def)
  with m show ?thesis by (simp add: state_of_def)
next
  case True
  from m have i: "map (idx s) (vars s) = map int [0..<length (vars s)]"
    and j: "map (idx s) (constrs s) = map int [0..<length (constrs s)]"
    and d: "distinct (vars s @ constrs s)"
    and a: "list_all (\<lambda>r. r < next_ref s) (vars s @ constrs s)"
    by (simp_all add: model_inv_def index_inv_def)
  from ConstrList_remove_Inr [OF j True] obtain st' where
    1: "ConstrList_remove hs s =
       Inr (s\<lparr>solver := remove_constrs (sort (map (idx s) hs)) (solver s), idx := st',
              constrs := filter (\<lambda>v. st' v \<noteq> - 1) (constrs s)\<rparr>)"
    and o: "\<forall>r. r \<notin> set (constrs s) \<longrightarrow> st' r = idx s r"
    and k: "map st' (filter (\<lambda>v. st' v \<noteq> - 1) (constrs s)) =
       map int [0..<length (filter (\<lambda>v. st' v \<noteq> - 1) (constrs s))]"
    by blast
  have "map st' (vars s) = map (idx s) (vars s)"
    using o d by (intro map_cong) auto
  with i have c: "map st' (vars s) = map int [0..<length (vars s)]" by simp
  have d': "distinct (vars s @ filter (\<lambda>v. st' v \<noteq> - 1) (constrs s))" using d by auto
  have a': "list_all (\<lambda>r. r < next_ref s) (vars s @ filter (\<lambda>v. st' v \<noteq> - 1) (constrs s))"
    using a by (auto simp: list_all_iff)
  show ?thesis
    unfolding 1 using k c d' a' by (simp add: state_of_def model_inv_def index_inv_def)
qed

lemma model_inv_step: "model_inv s \<Longrightarrow> model_inv (snd (step BINARY x s))"
proof (cases x)
  case (Op_add_var name lb ub obj var_type column)
  assume "model_inv s"
  from model_inv_VarList_add [OF this, of BINARY name lb ub obj var_type column]
  show ?thesis unfolding Op_add_var by (simp add: split_beta)
next
  case (Op_add_constr lin_expr name)
  assume "model_inv s"
  from model_inv_ConstrList_add [OF this, of lin_expr name]
  show ?thesis unfolding Op_add_constr by (simp add: split_beta)
next
  case (Op_remove_vars hs)
  assume "model_inv s"
  from model_inv_VarList_remove [OF this, of hs]
  show ?thesis unfolding Op_remove_vars by simp
next
  case (Op_remove_constrs hs)
  assume "model_inv s"
  from model_inv_ConstrList_remove [OF this, of hs]
  show ?thesis unfolding Op_remove_constrs by simp
next
  case (Op_new_handle i)
  assume "model_inv s"
  from model_inv_Var [OF this, of i]
  show ?thesis unfolding Op_new_handle by (simp add: split_beta)
qed

lemma model_inv_run: "model_inv s \<Longrightarrow> model_inv (snd (run BINARY xs s))"
proof (induction xs arbitrary: s)
  case Nil
  then show ?case by simp
next
  case (Cons x xs)
  from Cons.IH [OF model_inv_step [OF Cons.prems, of BINARY x]]
  show ?case by (simp add: split_beta)
qed

lemma model_inv_empty: "vars s = [] \<Longrightarrow> constrs s = [] \<Longrightarrow> model_inv s"
  by (simp add: model_inv_def index_inv_def)

lemma run_add_vars:
  "list_all is_add_var xs \<Longrightarrow>
   fst (run BINARY xs s) = map Some (drop (length (vars s)) (vars (snd (run BINARY xs s)))) \<and>
   take (length (vars s)) (vars (snd (run BINARY xs s))) = vars s \<and>
   length (vars (snd (run BINARY xs s))) = length (vars s) + length xs \<and>
   constrs (snd (run BINARY xs s)) = constrs s"
proof (induction xs arbitrary: s)
  case Nil
  then show ?case by simp
next
  case (Cons x xs)
  then obtain name lb ub obj var_type column where
    x: "x = Op_add_var name lb ub obj var_type column"
    by (cases x) simp_all
  let ?s1 = "snd (VarList_add BINARY name lb ub obj var_type column s)"
  let ?s2 = "snd (run BINARY xs ?s1)"
  from Cons.prems have "list_all is_add_var xs" by simp
  from Cons.IH [OF this, of ?s1] have
    f: "fst (run BINARY xs ?s1) = map Some (drop (length (vars ?s1)) (vars ?s2))"
    and t: "take (length (vars ?s1)) (vars ?s2) = vars ?s1"
    and l: "length (vars ?s2) = length (vars ?s1) + length xs"
    and c: "constrs ?s2 = constrs ?s1"
    by simp_all
  have v1: "vars ?s1 = vars s @ [next_ref s]" by (simp add: VarList_add_fields)
  have r: "run BINARY (x # xs) s =
      (Some (next_ref s) # fst (run BINARY xs ?s1), ?s2)"
    unfolding x by (simp add: split_beta VarList_add_fields)
  have tk: "take (Suc (length (vars s))) (vars ?s2) = vars s @ [next_ref s]"
    using t v1 by simp
  then have t': "take (length (vars s)) (vars ?s2) = vars s"
    by (metis append_eq_conv_conj butlast_snoc butlast_take diff_Suc_1 l le_add1 length_append_singleton v1)
  have ln: "length (vars s) < length (vars ?s2)" using l v1 by simp
  have "vars ?s2 ! length (vars s) = (vars s @ [next_ref s]) ! length (vars s)"
    using tk by (metis lessI nth_take)
  then have nth: "vars ?s2 ! length (vars s) = next_ref s" by simp
  have dr: "drop (length (vars s)) (vars ?s2) =
      next_ref s # drop (Suc (length (vars s))) (vars ?s2)"
    using ln nth by (metis Cons_nth_drop_Suc)
  show ?case
    unfolding r using f t' l c v1 dr by (simp add: VarList_add_fields)
qed

lemma run_add_constrs:
  "list_all is_add_constr xs \<Longrightarrow>
   fst (run BINARY xs s) =
     map Some (drop (length (constrs s)) (constrs (snd (run BINARY xs s)))) \<and>
   take (length (constrs s)) (constrs (snd (run BINARY xs s))) = constrs s \<and>
   length (constrs (snd (run BINARY xs s))) = length (constrs s) + length xs \<and>
   vars (snd (run BINARY xs s)) = vars s"
proof (induction xs arbitrary: s)
  case Nil
  then show ?case by simp
next
  case (Cons x xs)
  then obtain lin_expr name where x: "x = Op_add_constr lin_expr name"
    by (cases x) simp_all
  let ?s1 = "snd (ConstrList_add lin_expr name s)"
  let ?s2 = "snd (run BINARY xs ?s1)"
  from Cons.prems have "list_all is_add_constr xs" by simp
  from Cons.IH [OF this, of ?s1] have
    f: "fst (run BINARY xs ?s1) = map Some (drop (length (constrs ?s1)) (constrs ?s2))"
    and t: "take (length (constrs ?s1)) (constrs ?s2) = constrs ?s1"
    and l: "length (constrs ?s2) = length (constrs ?s1) + length xs"
    and c: "vars ?s2 = vars ?s1"
    by simp_all
  have v1: "constrs ?s1 = constrs s @ [next_ref s]" by (simp add: ConstrList_add_fields)
  have r: "run BINARY (x # xs) s =
      (Some (next_ref s) # fst (run BINARY xs ?s1), ?s2)"
    unfolding x by (simp add: split_beta ConstrList_add_fields)
  have tk: "take (Suc (length (constrs s))) (constrs ?s2) = constrs s @ [next_ref s]"
    using t v1 by simp
  then have t': "take (length (constrs s)) (constrs ?s2) = constrs s"
    by (metis append_eq_conv_conj butlast_snoc butlast_take diff_Suc_1 l le_add1 length_append_singleton v1)
  have ln: "length (constrs s) < length (constrs ?s2)" using l v1 by simp
  have "constrs ?s2 ! length (constrs s) = (constrs s @ [next_ref s]) ! length (constrs s)"
    using tk by (metis lessI nth_take)
  then have nth: "constrs ?s2 ! length (constrs s) = next_ref s" by simp
  have dr: "drop (length (constrs s)) (constrs ?s2) =
      next_ref s # drop (Suc (length (constrs s))) (constrs ?s2)"
    using ln nth by (metis Cons_nth_drop_Suc)
  show ?case
    unfolding r using f t' l c v1 dr by (simp add: ConstrList_add_fields)
qed


section \<open>Removing nothing\<close>

lemma VarList_remove_nothing:
  assumes inv: "map (idx s) (vars s) = map int [0..<length (vars s)]"
  shows "\<exists>s'. VarList_remove [] s = Inr s' \<and> idx s' = idx s \<and> vars s' = vars s"
proof -
  have "\<forall>h\<in>set ([]::ref list). py_index (length (vars s)) (idx s h) \<noteq> None" by simp
  from VarList_remove_Inr [OF inv this] obtain st' where
    1: "VarList_remove [] s =
       Inr (s\<lparr>solver := remove_vars (sort (map (idx s) [])) (solver s), idx := st',
              vars := filter (\<lambda>v. st' v \<noteq> - 1) (vars s)\<rparr>)"
    and o: "\<forall>r. r \<notin> set (vars s) \<longrightarrow> st' r = idx s r"
    and f: "filter (\<lambda>v. st' v \<noteq> - 1) (vars s) =
       filter (\<lambda>v. \<not> (\<exists>h\<in>set ([]::ref list).
          py_index (length (vars s)) (idx s h) = Some (nat (idx s v)))) (vars s)"
    and k: "map st' (filter (\<lambda>v. st' v \<noteq> - 1) (vars s)) =
       map int [0..<length (filter (\<lambda>v. st' v \<noteq> - 1) (vars s))]"
    by blast
  from f have f': "filter (\<lambda>v. st' v \<noteq> - 1) (vars s) = vars s" by simp
  from k have "map st' (vars s) = map (idx s) (vars s)" unfolding f' inv .
  then have "\<forall>v\<in>set (vars s). st' v = idx s v" by simp
  with o have "st' = idx s" by (intro ext) blast
  with 1 f' show ?thesis by simp
qed

lemma ConstrList_remove_nothing:
  assumes inv: "map (idx s) (constrs s) = map int [0..<length (constrs s)]"
  shows "\<exists>s'. ConstrList_remove [] s = Inr s' \<and> idx s' = idx s \<and> constrs s' = constrs s"
proof -
  have "\<forall>h\<in>set ([]::ref list). py_index (length (constrs s)) (idx s h) \<noteq> None" by simp
  from ConstrList_remove_Inr [OF inv this] obtain st' where
    1: "ConstrList_remove [] s =
       Inr (s\<lparr>solver := remove_constrs (sort (map (idx s) [])) (solver s), idx := st',
              constrs := filter (\<lambda>v. st' v \<noteq> - 1) (constrs s)\<rparr>)"
    and o: "\<forall>r. r \<notin> set (constrs s) \<longrightarrow> st' r = idx s r"
    and f: "filter (\<lambda>v. st' v \<noteq> - 1) (constrs s) =
       filter (\<lambda>v. \<not> (\<exists>h\<in>set ([]::ref list).
          py_index (length (constrs s)) (idx s h) = Some (nat (idx s v)))) (constrs s)"
    and k: "map st' (filter (\<lambda>v. st' v \<noteq> - 1) (constrs s)) =
       map int [0..<length (filter (\<lambda>v. st' v \<noteq> - 1) (constrs s))]"
    by blast
  from f have f': "filter (\<lambda>v. st' v \<noteq> - 1) (constrs s) = constrs s" by simp
  from k have "map st' (constrs s) = map (idx s) (constrs s)" unfolding f' inv .
  then have "\<forall>v\<in>set (constrs s). st' v = idx s v" by simp
  with o have "st' = idx s" by (intro ext) blast
  with 1 f' show ?thesis by simp
qed

lemma run_adds_length:
  "list_all (\<lambda>x. is_add_var x \<or> is_add_constr x) xs \<Longrightarrow>
   length (vars (snd (run BINARY xs s))) = length (vars s) + length (filter is_add_var xs) \<and>
   length (constrs (snd (run BINARY xs s))) =
     length (constrs s) + length (filter is_add_constr xs)"
proof (induction xs arbitrary: s)
  case Nil
  then show ?case by simp
next
  case (Cons x xs)
  from Cons.prems have r: "list_all (\<lambda>x. is_add_var x \<or> is_add_constr x) xs" by simp
  from Cons.prems show ?case
    by (cases x) (simp_all add: split_beta Cons.IH [OF r] VarList_add_fields ConstrList_add_fields)
qed

text \<open>
  Claim C9. After any sequence of \<open>add\<close> calls on the empty collections, with no
  removal, \<open>remove\<close> of the empty list returns and leaves the index of every handle,
  the cached sequence and the length as they were; the length is the number of adds.
\<close>

theorem remove_nothing_is_identity:
  assumes "vars s0 = []" and "constrs s0 = []"
    and "list_all (\<lambda>x. is_add_var x \<or> is_add_constr x) xs"
  shows "(\<exists>s'. VarList_remove [] (snd (run BINARY xs s0)) = Inr s' \<and>
       idx s' = idx (snd (run BINARY xs s0)) \<and> vars s' = vars (snd (run BINARY xs s0)) \<and>
       VarList_len s' = VarList_len (snd (run BINARY xs s0)) \<and>
       VarList_len s' = int (length (filter is_add_var xs))) \<and>
     (\<exists>s'. ConstrList_remove [] (snd (run BINARY xs s0)) = Inr s' \<and>
       idx s' = idx (snd (run BINARY xs s0)) \<and>
       constrs s' = constrs (snd (run BINARY xs s0)) \<and>
       ConstrList_len s' = ConstrList_len (snd (run BINARY xs s0)) \<and>
       ConstrList_len s' = int (length (filter is_add_constr xs)))"
proof -
  let ?s = "snd (run BINARY xs s0)"
  have "model_inv ?s" using assms(1,2) by (intro model_inv_run model_inv_empty)
  then have i: "map (idx ?s) (vars ?s) = map int [0..<length (vars ?s)]"
    and j: "map (idx ?s) (constrs ?s) = map int [0..<length (constrs ?s)]"
    by (simp_all add: model_inv_def index_inv_def)
  from run_adds_length [OF assms(3), of BINARY s0] assms(1,2)
  have l: "length (vars ?s) = length (filter is_add_var xs)"
    "length (constrs ?s) = length (filter is_add_constr xs)"
    by simp_all
  from VarList_remove_nothing [OF i] ConstrList_remove_nothing [OF j] l
  show ?thesis by (auto simp: VarList_len_def ConstrList_len_def)
qed

theorem remove_nothing_is_identity_witness:
  "(\<exists>s'. VarList_remove [] example_model = Inr s' \<and> idx s' = idx example_model \<and>
      vars s' = [0, 1, 2, 3, 4] \<and> VarList_len s' = 5) \<and>
   (\<exists>s'. ConstrList_remove [] example_model = Inr s' \<and> idx s' = idx example_model \<and>
      constrs s' = [5, 6, 7] \<and> ConstrList_len s' = 3)"
proof -
  have a: "vars (empty_model empty_engine :: (unit, unit) model) = []"
    and b: "constrs (empty_model empty_engine :: (unit, unit) model) = []"
    by (simp_all add: empty_model_def)
  from remove_nothing_is_identity [OF a b, of
      "[Op_add_var ''x0'' (Finite 0) PosInf (Finite 0) ''C'' None,
        Op_add_var ''x1'' (Finite 0) PosInf (Finite 0) ''C'' None,
        Op_add_var ''x2'' (Finite 0) PosInf (Finite 0) ''C'' None,
        Op_add_var ''x3'' (Finite 0) PosInf (Finite 0) ''C'' None,
        Op_add_var ''x4'' (Finite 0) PosInf (Finite 0) ''C'' None,
        Op_add_constr () ''c0'',
        Op_add_constr () ''c1'',
        Op_add_constr () ''c2'']" "''B''"]
  show ?thesis
    unfolding example_model_def [symmetric]
    by (simp add: example_model_vars example_model_constrs) blast
qed


section \<open>Removing a detached handle\<close>

lemma inv_last:
  assumes inv: "map st vs = map int [0..<length vs]" and ne: "vs \<noteq> []"
  shows "st (last vs) = int (length vs - 1)"
    and "filter (\<lambda>v. nat (st v) \<noteq> length vs - 1) vs = butlast vs"
proof -
  have "st (last vs) = last (map st vs)" using ne by (simp add: last_map)
  also have "\<dots> = int (length vs - 1)" unfolding inv using ne by (simp add: last_map)
  finally show l: "st (last vs) = int (length vs - 1)" .
  have "map st (butlast vs) = butlast (map st vs)" by (simp add: map_butlast)
  also have "\<dots> = map int [0..<length vs - 1]"
    unfolding inv by (cases "length vs") (simp_all add: map_butlast [symmetric])
  finally have b: "map st (butlast vs) = map int [0..<length vs - 1]" .
  have "\<forall>v\<in>set (butlast vs). nat (st v) \<noteq> length vs - 1"
  proof
    fix v assume "v \<in> set (butlast vs)"
    then have "st v \<in> set (map st (butlast vs))" by simp
    then show "nat (st v) \<noteq> length vs - 1" unfolding b by auto
  qed
  then have "filter (\<lambda>v. nat (st v) \<noteq> length vs - 1) (butlast vs) = butlast vs" by simp
  moreover have "filter (\<lambda>v. nat (st v) \<noteq> length vs - 1) [last vs] = []" using l by simp
  ultimately have "filter (\<lambda>v. nat (st v) \<noteq> length vs - 1) (butlast vs @ [last vs]) = butlast vs"
    by simp
  then show "filter (\<lambda>v. nat (st v) \<noteq> length vs - 1) vs = butlast vs" using ne by simp
qed

lemma py_index_minus_one: "0 < n \<Longrightarrow> py_index n (- 1) = Some (n - 1)"
  by (auto simp: py_index_def nat_diff_distrib)

lemma remove_mark_minus_one:
  "0 < n \<Longrightarrow> remove_mark (replicate n 1) [- 1] = Inr ((replicate n 1)[n - 1 := 0])"
  by (simp add: py_index_minus_one)

lemma VarList_remove_detached:
  assumes inv: "map (idx s) (vars s) = map int [0..<length (vars s)]"
    and ne: "vars s \<noteq> []" and d: "idx s d = - 1"
  shows "\<exists>s'. VarList_remove [d] s = Inr s' \<and>
     calls (solver s') = calls (solver s) @ [Remove_vars [- 1]] \<and>
     idx s' (last (vars s)) = - 1 \<and> vars s' = butlast (vars s) \<and>
     map (idx s') (vars s') = map int [0..<length (vars s')] \<and>
     VarList_len s' = VarList_len s - 1"
proof -
  let ?n = "length (vars s)"
  have n: "0 < ?n" using ne by simp
  have p: "py_index ?n (idx s d) = Some (?n - 1)" using py_index_minus_one [OF n] d by simp
  then have "\<forall>h\<in>set [d]. py_index ?n (idx s h) \<noteq> None" by simp
  from VarList_remove_Inr [OF inv this] obtain st' where
    1: "VarList_remove [d] s =
       Inr (s\<lparr>solver := remove_vars (sort (map (idx s) [d])) (solver s), idx := st',
              vars := filter (\<lambda>v. st' v \<noteq> - 1) (vars s)\<rparr>)"
    and g: "\<forall>v\<in>set (vars s).
        (\<exists>h\<in>set [d]. py_index ?n (idx s h) = Some (nat (idx s v))) \<longrightarrow> st' v = - 1"
    and f: "filter (\<lambda>v. st' v \<noteq> - 1) (vars s) =
       filter (\<lambda>v. \<not> (\<exists>h\<in>set [d]. py_index ?n (idx s h) = Some (nat (idx s v)))) (vars s)"
    and k: "map st' (filter (\<lambda>v. st' v \<noteq> - 1) (vars s)) =
       map int [0..<length (filter (\<lambda>v. st' v \<noteq> - 1) (vars s))]"
    by blast
  note L = inv_last [OF inv ne]
  have "filter (\<lambda>v. st' v \<noteq> - 1) (vars s) =
      filter (\<lambda>v. nat (idx s v) \<noteq> ?n - 1) (vars s)"
    unfolding f using p by (intro filter_cong) auto
  then have f': "filter (\<lambda>v. st' v \<noteq> - 1) (vars s) = butlast (vars s)" using L(2) by simp
  have "last (vars s) \<in> set (vars s)" using ne by simp
  moreover have "py_index ?n (idx s d) = Some (nat (idx s (last (vars s))))"
    using p L(1) by simp
  ultimately have a: "st' (last (vars s)) = - 1" using g by auto
  have c: "calls (solver (s\<lparr>solver := remove_vars (sort (map (idx s) [d])) (solver s), idx := st',
              vars := filter (\<lambda>v. st' v \<noteq> - 1) (vars s)\<rparr>)) =
      calls (solver s) @ [Remove_vars [- 1]]"
    using d by (simp add: remove_vars_def)
  have "int (length (butlast (vars s))) = int ?n - 1" using ne by (cases "vars s") simp_all
  with 1 a c f' k show ?thesis by (auto simp: VarList_len_def)
qed

lemma ConstrList_remove_detached:
  assumes inv: "map (idx s) (constrs s) = map int [0..<length (constrs s)]"
    and ne: "constrs s \<noteq> []" and d: "idx s d = - 1"
  shows "\<exists>s'. ConstrList_remove [d] s = Inr s' \<and>
     calls (solver s') = calls (solver s) @ [Remove_constrs [- 1]] \<and>
     idx s' (last (constrs s)) = - 1 \<and> constrs s' = butlast (constrs s) \<and>
     map (idx s') (constrs s') = map int [0..<length (constrs s')] \<and>
     ConstrList_len s' = ConstrList_len s - 1"
proof -
  let ?n = "length (constrs s)"
  have n: "0 < ?n" using ne by simp
  have p: "py_index ?n (idx s d) = Some (?n - 1)" using py_index_minus_one [OF n] d by simp
  then have "\<forall>h\<in>set [d]. py_index ?n (idx s h) \<noteq> None" by simp
  from ConstrList_remove_Inr [OF inv this] obtain st' where
    1: "ConstrList_remove [d] s =
       Inr (s\<lparr>solver := remove_constrs (sort (map (idx s) [d])) (solver s), idx := st',
              constrs := filter (\<lambda>v. st' v \<noteq> - 1) (constrs s)\<rparr>)"
    and g: "\<forall>v\<in>set (constrs s).
        (\<exists>h\<in>set [d]. py_index ?n (idx s h) = Some (nat (idx s v))) \<longrightarrow> st' v = - 1"
    and f: "filter (\<lambda>v. st' v \<noteq> - 1) (constrs s) =
       filter (\<lambda>v. \<not> (\<exists>h\<in>set [d]. py_index ?n (idx s h) = Some (nat (idx s v))))
         (constrs s)"
    and k: "map st' (filter (\<lambda>v. st' v \<noteq> - 1) (constrs s)) =
       map int [0..<length (filter (\<lambda>v. st' v \<noteq> - 1) (constrs s))]"
    by blast
  note L = inv_last [OF inv ne]
  have "filter (\<lambda>v. st' v \<noteq> - 1) (constrs s) =
      filter (\<lambda>v. nat (idx s v) \<noteq> ?n - 1) (constrs s)"
    unfolding f using p by (intro filter_cong) auto
  then have f': "filter (\<lambda>v. st' v \<noteq> - 1) (constrs s) = butlast (constrs s)"
    using L(2) by simp
  have "last (constrs s) \<in> set (constrs s)" using ne by simp
  moreover have "py_index ?n (idx s d) = Some (nat (idx s (last (constrs s))))"
    using p L(1) by simp
  ultimately have a: "st' (last (constrs s)) = - 1" using g by auto
  have c: "calls (solver (s\<lparr>solver := remove_constrs (sort (map (idx s) [d])) (solver s),
              idx := st', constrs := filter (\<lambda>v. st' v \<noteq> - 1) (constrs s)\<rparr>)) =
      calls (solver s) @ [Remove_constrs [- 1]]"
    using d by (simp add: remove_constrs_def)
  have "int (length (butlast (constrs s))) = int ?n - 1"
    using ne by (cases "constrs s") simp_all
  with 1 a c f' k show ?thesis by (auto simp: ConstrList_len_def)
qed


text \<open>
  Claim C10. On a caching collection with at least one cached handle (and the index
  invariant), \<open>remove\<close> of a list holding one detached handle, whose index is \<open>-1\<close>, is no
  no-op: the position \<open>-1\<close> is handed to the engine's batch removal, the bitmap slot it
  addresses is the last one, and the last handle of the sequence is detached and dropped,
  so that the length falls by one.
\<close>

theorem remove_detached_drops_last:
  "(map (idx s) (vars s) = map int [0..<length (vars s)] \<and> vars s \<noteq> [] \<and> idx s d = - 1 \<longrightarrow>
      remove_mark (replicate (length (vars s)) 1) (sort (map (idx s) [d])) =
        Inr ((replicate (length (vars s)) 1)[length (vars s) - 1 := 0]) \<and>
      (\<exists>s'. VarList_remove [d] s = Inr s' \<and>
         calls (solver s') = calls (solver s) @ [Remove_vars [- 1]] \<and>
         idx s' (last (vars s)) = - 1 \<and> vars s' = butlast (vars s) \<and>
         VarList_len s' = VarList_len s - 1)) \<and>
   (map (idx s) (constrs s) = map int [0..<length (constrs s)] \<and> constrs s \<noteq> [] \<and>
    idx s c = - 1 \<longrightarrow>
      remove_mark (replicate (length (constrs s)) 1) (sort (map (idx s) [c])) =
        Inr ((replicate (length (constrs s)) 1)[length (constrs s) - 1 := 0]) \<and>
      (\<exists>s'. ConstrList_remove [c] s = Inr s' \<and>
         calls (solver s') = calls (solver s) @ [Remove_constrs [- 1]] \<and>
         idx s' (last (constrs s)) = - 1 \<and> constrs s' = butlast (constrs s) \<and>
         ConstrList_len s' = ConstrList_len s - 1))"
proof (intro conjI impI)
  assume a: "map (idx s) (vars s) = map int [0..<length (vars s)] \<and> vars s \<noteq> [] \<and>
    idx s d = - 1"
  then show "remove_mark (replicate (length (vars s)) 1) (sort (map (idx s) [d])) =
        Inr ((replicate (length (vars s)) 1)[length (vars s) - 1 := 0])"
    using remove_mark_minus_one [of "length (vars s)"] by simp
  from a VarList_remove_detached [of s d]
  show "\<exists>s'. VarList_remove [d] s = Inr s' \<and>
         calls (solver s') = calls (solver s) @ [Remove_vars [- 1]] \<and>
         idx s' (last (vars s)) = - 1 \<and> vars s' = butlast (vars s) \<and>
         VarList_len s' = VarList_len s - 1"
    by blast
next
  assume a: "map (idx s) (constrs s) = map int [0..<length (constrs s)] \<and> constrs s \<noteq> [] \<and>
    idx s c = - 1"
  then show "remove_mark (replicate (length (constrs s)) 1) (sort (map (idx s) [c])) =
        Inr ((replicate (length (constrs s)) 1)[length (constrs s) - 1 := 0])"
    using remove_mark_minus_one [of "length (constrs s)"] by simp
  from a ConstrList_remove_detached [of s c]
  show "\<exists>s'. ConstrList_remove [c] s = Inr s' \<and>
         calls (solver s') = calls (solver s) @ [Remove_constrs [- 1]] \<and>
         idx s' (last (constrs s)) = - 1 \<and> constrs s' = butlast (constrs s) \<and>
         ConstrList_len s' = ConstrList_len s - 1"
    by blast
qed

text \<open>
  The witness removes \<open>x1\<close> twice: the second call finds \<open>x1\<close> detached and drops \<open>x4\<close>,
  the last of the four variables left. Likewise for the constraint \<open>c1\<close>, where \<open>c2\<close>
  goes.
\<close>

theorem remove_detached_drops_last_witness:
  "(\<exists>s'. VarList_remove [1] (state_of (VarList_remove [1] example_model)) = Inr s' \<and>
      calls (solver s') =
        calls (solver (state_of (VarList_remove [1] example_model))) @ [Remove_vars [- 1]] \<and>
      idx s' 4 = - 1 \<and> vars s' = [0, 2, 3] \<and> VarList_len s' = 3) \<and>
   (\<exists>s'. ConstrList_remove [6] (state_of (ConstrList_remove [6] example_model)) = Inr s' \<and>
      calls (solver s') =
        calls (solver (state_of (ConstrList_remove [6] example_model))) @
          [Remove_constrs [- 1]] \<and>
      idx s' 7 = - 1 \<and> constrs s' = [5] \<and> ConstrList_len s' = 1)"
proof -
  have i: "map (idx example_model) (vars example_model) =
      map int [0..<length (vars example_model)]"
    and j: "map (idx example_model) (constrs example_model) =
      map int [0..<length (constrs example_model)]"
    using example_model_idx by (simp_all add: example_model_vars example_model_constrs upt_rec)
  from VarList_remove_live [OF i, of "[1]"] obtain s1 where
    1: "VarList_remove [1] example_model = Inr s1" "idx s1 1 = - 1" "vars s1 = [0, 2, 3, 4]"
       "map (idx s1) (vars s1) = map int [0..<length (vars s1)]"
    by (auto simp: example_model_vars)
  from ConstrList_remove_live [OF j, of "[6]"] obtain s2 where
    2: "ConstrList_remove [6] example_model = Inr s2" "idx s2 6 = - 1" "constrs s2 = [5, 7]"
       "map (idx s2) (constrs s2) = map int [0..<length (constrs s2)]"
    by (auto simp: example_model_constrs)
  have v: "vars s1 \<noteq> []" and c: "constrs s2 \<noteq> []" using 1(3) 2(3) by simp_all
  from remove_detached_drops_last [of s1 1 6] 1(2,4) v obtain t1 where
    3: "VarList_remove [1] s1 = Inr t1"
       "calls (solver t1) = calls (solver s1) @ [Remove_vars [- 1]]"
       "idx t1 (last (vars s1)) = - 1" "vars t1 = butlast (vars s1)"
       "VarList_len t1 = VarList_len s1 - 1"
    by blast
  from remove_detached_drops_last [of s2 1 6] 2(2,4) c obtain t2 where
    4: "ConstrList_remove [6] s2 = Inr t2"
       "calls (solver t2) = calls (solver s2) @ [Remove_constrs [- 1]]"
       "idx t2 (last (constrs s2)) = - 1" "constrs t2 = butlast (constrs s2)"
       "ConstrList_len t2 = ConstrList_len s2 - 1"
    by blast
  have a: "\<exists>s'. VarList_remove [1] (state_of (VarList_remove [1] example_model)) = Inr s' \<and>
      calls (solver s') =
        calls (solver (state_of (VarList_remove [1] example_model))) @ [Remove_vars [- 1]] \<and>
      idx s' 4 = - 1 \<and> vars s' = [0, 2, 3] \<and> VarList_len s' = 3"
    using 3 1(3) unfolding 1(1) by (intro exI [of _ t1]) (simp add: state_of_def VarList_len_def)
  have b: "\<exists>s'. ConstrList_remove [6] (state_of (ConstrList_remove [6] example_model)) = Inr s' \<and>
      calls (solver s') =
        calls (solver (state_of (ConstrList_remove [6] example_model))) @
          [Remove_constrs [- 1]] \<and>
      idx s' 7 = - 1 \<and> constrs s' = [5] \<and> ConstrList_len s' = 1"
    using 4 2(3) unfolding 2(1)
    by (intro exI [of _ t2]) (simp add: state_of_def ConstrList_len_def)
  from a b show ?thesis ..
qed


section \<open>The positions handed to the engine\<close>

lemma VarList_remove_solver:
  assumes "\<forall>h\<in>set hs. py_index (length (vars s)) (idx s h) \<noteq> None"
  shows "solver (state_of (VarList_remove hs s)) =
    remove_vars (sort (map (idx s) hs)) (solver s)"
proof -
  have "\<forall>p\<in>set (sort (map (idx s) hs)).
      py_index (length (replicate (length (vars s)) (1::int))) p \<noteq> None"
    using assms by auto
  from remove_mark_Inr [OF this] obtain iv' where
    "remove_mark (replicate (length (vars s)) 1) (sort (map (idx s) hs)) = Inr iv'" by blast
  then show ?thesis
    by (simp add: VarList_remove_def Let_def state_of_def split: sum.splits prod.splits)
qed

lemma ConstrList_remove_solver:
  assumes "\<forall>h\<in>set hs. py_index (length (constrs s)) (idx s h) \<noteq> None"
  shows "solver (state_of (ConstrList_remove hs s)) =
    remove_constrs (sort (map (idx s) hs)) (solver s)"
proof -
  have "\<forall>p\<in>set (sort (map (idx s) hs)).
      py_index (length (replicate (length (constrs s)) (1::int))) p \<noteq> None"
    using assms by auto
  from remove_mark_Inr [OF this] obtain iv' where
    "remove_mark (replicate (length (constrs s)) 1) (sort (map (idx s) hs)) = Inr iv'" by blast
  then show ?thesis
    by (simp add: ConstrList_remove_def Let_def state_of_def split: sum.splits prod.splits)
qed

lemma example_model_engine:
  "next_ref example_model = 8 \<and> num_cols (solver example_model) = 5 \<and>
   num_rows (solver example_model) = 3"
  by (simp add: example_model_def empty_model_def empty_engine_def VarList_add_def
      ConstrList_add_def Var_def Constr_def Let_def add_var_def add_constr_def num_cols_def
      num_rows_def)

text \<open>
  Claim C8, as stated, fails on duplicates: the view's subscript \<open>0\<close> builds a second
  handle of the entity \<open>x0\<close> (reference 8, index 0); removing the cached \<open>x0\<close> together
  with it hands the positions \<open>[0, 0]\<close> to the engine.
\<close>

theorem removal_positions_counterexample:
  "VVarList_getitem unresolved (VVarList_init (Some (- 1)) (Some (- 1)) example_model) (KInt 0)
       example_model = Inr (Handle 8, snd (Var 0 example_model)) \<and>
   idx (snd (Var 0 example_model)) 0 = 0 \<and> idx (snd (Var 0 example_model)) 8 = 0 \<and>
   last (calls (solver (state_of (VarList_remove [0, 8] (snd (Var 0 example_model)))))) =
     Remove_vars [0, 0] \<and>
   \<not> distinct [0::int, 0]"
proof -
  let ?s = "snd (Var 0 example_model)"
  have n: "next_ref example_model = 8" "num_cols (solver example_model) = 5"
    using example_model_engine by simp_all
  have g: "VVarList_getitem unresolved (VVarList_init (Some (- 1)) (Some (- 1)) example_model)
       (KInt 0) example_model = Inr (Handle 8, ?s)"
    using n by (simp add: VVarList_getitem_def VVarList_init_def Var_def)
  have "idx example_model 0 = 0" using example_model_idx by simp
  then have i: "idx ?s 0 = 0" "idx ?s 8 = 0" using n by (simp_all add: Var_def)
  have v: "vars ?s = [0, 1, 2, 3, 4]" by (simp add: Var_fields example_model_vars)
  have "\<forall>h\<in>set [0, 8]. py_index (length (vars ?s)) (idx ?s h) \<noteq> None"
    using i v by (simp add: py_index_def)
  from VarList_remove_solver [OF this]
  have "last (calls (solver (state_of (VarList_remove [0, 8] ?s)))) = Remove_vars [0, 0]"
    using i by (simp add: remove_vars_def)
  with g i show ?thesis by simp
qed

text \<open>
  Claim C8, amended. When every supplied handle is live (its index addresses the
  sequence), \<open>remove\<close> makes one batch removal call, and the list it passes is the
  ascending sort of the supplied handles' indices, one position for each supplied handle:
  it is sorted, and it is free of duplicates exactly when no two supplied handles carry
  the same index.
\<close>

theorem removal_positions_sorted:
  "((\<forall>h\<in>set hs. 0 \<le> idx s h \<and> idx s h < VarList_len s) \<longrightarrow>
      calls (solver (state_of (VarList_remove hs s))) =
        calls (solver s) @ [Remove_vars (sort (map (idx s) hs))]) \<and>
   ((\<forall>h\<in>set hs. 0 \<le> idx s h \<and> idx s h < ConstrList_len s) \<longrightarrow>
      calls (solver (state_of (ConstrList_remove hs s))) =
        calls (solver s) @ [Remove_constrs (sort (map (idx s) hs))]) \<and>
   sorted (sort (map (idx s) hs)) \<and>
   length (sort (map (idx s) hs)) = length hs \<and>
   distinct (sort (map (idx s) hs)) = distinct (map (idx s) hs)"
proof (intro conjI impI)
  assume "\<forall>h\<in>set hs. 0 \<le> idx s h \<and> idx s h < VarList_len s"
  then have "\<forall>h\<in>set hs. py_index (length (vars s)) (idx s h) \<noteq> None"
    by (simp add: VarList_len_def py_index_def)
  from VarList_remove_solver [OF this]
  show "calls (solver (state_of (VarList_remove hs s))) =
        calls (solver s) @ [Remove_vars (sort (map (idx s) hs))]"
    by (simp add: remove_vars_def)
next
  assume "\<forall>h\<in>set hs. 0 \<le> idx s h \<and> idx s h < ConstrList_len s"
  then have "\<forall>h\<in>set hs. py_index (length (constrs s)) (idx s h) \<noteq> None"
    by (simp add: ConstrList_len_def py_index_def)
  from ConstrList_remove_solver [OF this]
  show "calls (solver (state_of (ConstrList_remove hs s))) =
        calls (solver s) @ [Remove_constrs (sort (map (idx s) hs))]"
    by (simp add: remove_constrs_def)
qed simp_all

theorem removal_positions_sorted_witness:
  "calls (solver (state_of (VarList_remove [3, 1] example_model))) =
     calls (solver example_model) @ [Remove_vars [1, 3]] \<and>
   calls (solver (state_of (ConstrList_remove [7, 5] example_model))) =
     calls (solver example_model) @ [Remove_constrs [0, 2]]"
proof -
  have i: "idx example_model 1 = 1" "idx example_model 3 = 3"
    "idx example_model 5 = 0" "idx example_model 7 = 2"
    using example_model_idx by simp_all
  have a: "\<forall>h\<in>set [3, 1]. 0 \<le> idx example_model h \<and> idx example_model h < VarList_len example_model"
    using i by (simp add: VarList_len_def example_model_vars)
  have b: "\<forall>h\<in>set [7, 5]. 0 \<le> idx example_model h \<and>
      idx example_model h < ConstrList_len example_model"
    using i by (simp add: ConstrList_len_def example_model_constrs)
  from removal_positions_sorted [of "[3, 1]" example_model] a
    removal_positions_sorted [of "[7, 5]" example_model] b
  show ?thesis using i by simp
qed


section \<open>Integer subscripts out of range\<close>

text \<open>
  Claim C4, as stated, fails: on the caching collection of five variables the key \<open>-1\<close>,
  which is outside \<open>[0, 5)\<close>, returns the last handle \<open>x4\<close>, and on the caching collection
  of three constraints it returns the last handle \<open>c2\<close>.
\<close>

theorem getitem_range_counterexample:
  "VarList_len example_model = 5 \<and>
   VarList_getitem unresolved (KInt (- 1)) example_model = Inr (Handle 4, example_model) \<and>
   ConstrList_len example_model = 3 \<and>
   ConstrList_getitem unresolved (KInt (- 1)) example_model = Inr (Handle 7, example_model)"
  by (simp add: VarList_len_def VarList_getitem_def ConstrList_len_def ConstrList_getitem_def
      example_model_vars example_model_constrs py_index_def)

text \<open>
  Claim C4, amended. A caching collection raises \<open>IndexError\<close> for an integer key
  \<open>i\<close> exactly when \<open>i >= length()\<close> or \<open>i < -length()\<close>, and then returns no handle; a
  key in \<open>[-length(), -1]\<close> counts from the end of the sequence, as a Python list does. The
  view of variables raises \<open>IndexError\<close> for every key \<open>i >= end\<close>, so its upper bound is
  exclusive.
\<close>

theorem getitem_range:
  "(VarList_getitem var_by_name (KInt i) s = Inl (IndexError, s)) =
     (i < - VarList_len s \<or> VarList_len s \<le> i) \<and>
   (- VarList_len s \<le> i \<and> i < 0 \<longrightarrow>
      VarList_getitem var_by_name (KInt i) s =
        Inr (Handle (vars s ! nat (VarList_len s + i)), s)) \<and>
   (ConstrList_getitem constr_by_name (KInt i) s = Inl (IndexError, s)) =
     (i < - ConstrList_len s \<or> ConstrList_len s \<le> i) \<and>
   (- ConstrList_len s \<le> i \<and> i < 0 \<longrightarrow>
      ConstrList_getitem constr_by_name (KInt i) s =
        Inr (Handle (constrs s ! nat (ConstrList_len s + i)), s)) \<and>
   (v_end v = Some e \<and> e \<le> i \<longrightarrow>
      VVarList_getitem var_by_name v (KInt i) s = Inl (IndexError, s))"
  by (auto simp: VarList_getitem_def ConstrList_getitem_def VVarList_getitem_def
      VarList_len_def ConstrList_len_def py_index_def Let_def)

theorem getitem_range_witness:
  "VarList_getitem unresolved (KInt 5) example_model = Inl (IndexError, example_model) \<and>
   VarList_getitem unresolved (KInt (- 6)) example_model = Inl (IndexError, example_model) \<and>
   VarList_getitem unresolved (KInt (- 5)) example_model = Inr (Handle 0, example_model) \<and>
   ConstrList_getitem unresolved (KInt 3) example_model = Inl (IndexError, example_model) \<and>
   ConstrList_getitem unresolved (KInt (- 1)) example_model = Inr (Handle 7, example_model) \<and>
   VVarList_getitem unresolved \<lparr>v_start = Some 0, v_end = Some 5\<rparr> (KInt 5) example_model =
     Inl (IndexError, example_model)"
  using getitem_range [of unresolved 5 example_model unresolved "\<lparr>v_start = Some 0, v_end = Some 5\<rparr>" 5]
    getitem_range [of unresolved "- 6" example_model unresolved "\<lparr>v_start = Some 0, v_end = Some 5\<rparr>" 5]
    getitem_range [of unresolved "- 5" example_model unresolved "\<lparr>v_start = Some 0, v_end = Some 5\<rparr>" 5]
    getitem_range [of unresolved 3 example_model unresolved "\<lparr>v_start = Some 0, v_end = Some 5\<rparr>" 5]
    getitem_range [of unresolved "- 1" example_model unresolved "\<lparr>v_start = Some 0, v_end = Some 5\<rparr>" 5]
  by (simp add: VarList_len_def ConstrList_len_def example_model_vars example_model_constrs)


section \<open>The index invariant after any sequence of calls\<close>

text \<open>
  Claim C2. Starting from empty collections, after any finite sequence of \<open>add\<close> and
  \<open>remove\<close> calls on the two caching collections (whatever handles the removals are given,
  and whether they return or raise) each cached sequence satisfies
  \<open>sequence[i].idx == i\<close> at every position, and \<open>length()\<close> is the size of the sequence.
  When the sequence consists of \<open>add\<close> calls only, the handles returned are the cached
  sequence, so the \<open>i\<close>-th added entity has index \<open>i\<close>, and the length is the number of
  adds.
\<close>

theorem index_invariant_kept:
  assumes "vars s0 = []" and "constrs s0 = []"
  shows "index_inv (snd (run BINARY xs s0)) \<and>
     VarList_len (snd (run BINARY xs s0)) = int (length (vars (snd (run BINARY xs s0)))) \<and>
     ConstrList_len (snd (run BINARY xs s0)) =
       int (length (constrs (snd (run BINARY xs s0)))) \<and>
     (list_all is_add_var xs \<longrightarrow>
        fst (run BINARY xs s0) = map Some (vars (snd (run BINARY xs s0))) \<and>
        map (idx (snd (run BINARY xs s0))) (vars (snd (run BINARY xs s0))) =
          map int [0..<length xs] \<and>
        VarList_len (snd (run BINARY xs s0)) = int (length xs)) \<and>
     (list_all is_add_constr xs \<longrightarrow>
        fst (run BINARY xs s0) = map Some (constrs (snd (run BINARY xs s0))) \<and>
        map (idx (snd (run BINARY xs s0))) (constrs (snd (run BINARY xs s0))) =
          map int [0..<length xs] \<and>
        ConstrList_len (snd (run BINARY xs s0)) = int (length xs))"
proof -
  let ?s = "snd (run BINARY xs s0)"
  have "model_inv ?s" using assms by (intro model_inv_run model_inv_empty)
  then have inv: "index_inv ?s" by (simp add: model_inv_def)
  have v: "fst (run BINARY xs s0) = map Some (vars ?s) \<and>
      map (idx ?s) (vars ?s) = map int [0..<length xs] \<and> VarList_len ?s = int (length xs)"
    if "list_all is_add_var xs"
    using run_add_vars [OF that, of BINARY s0] inv assms
    by (simp add: index_inv_def VarList_len_def)
  have c: "fst (run BINARY xs s0) = map Some (constrs ?s) \<and>
      map (idx ?s) (constrs ?s) = map int [0..<length xs] \<and>
      ConstrList_len ?s = int (length xs)"
    if "list_all is_add_constr xs"
    using run_add_constrs [OF that, of BINARY s0] inv assms
    by (simp add: index_inv_def ConstrList_len_def)
  from inv v c show ?thesis by (simp add: VarList_len_def ConstrList_len_def)
qed

text \<open>
  The witness runs adds, a removal, a removal that raises (the handle built outside
  carries the index 7), a double removal and removals of constraints; the second part
  is the run of three adds.
\<close>

theorem index_invariant_kept_witness:
  "index_inv (snd (run ''B''
       [Op_add_var ''x0'' (Finite 0) PosInf (Finite 0) ''C'' None,
        Op_add_var [] (Finite 0) PosInf (Finite 0) ''B'' None,
        Op_add_constr () ''c0'',
        Op_add_var ''x2'' (Finite 0) PosInf (Finite 0) ''C'' None,
        Op_remove_vars [1],
        Op_new_handle 7,
        Op_remove_vars [4],
        Op_remove_vars [1],
        Op_add_constr () [],
        Op_remove_constrs [2],
        Op_add_var ''x3'' (Finite 0) PosInf (Finite 0) ''C'' None]
       (empty_model (empty_engine :: (unit, unit) engine)))) \<and>
   fst (run ''B''
       [Op_add_var ''x0'' (Finite 0) PosInf (Finite 0) ''C'' None,
        Op_add_var ''x1'' (Finite 0) PosInf (Finite 0) ''C'' None,
        Op_add_var ''x2'' (Finite 0) PosInf (Finite 0) ''C'' None]
       (empty_model (empty_engine :: (unit, unit) engine))) = [Some 0, Some 1, Some 2] \<and>
   map (idx (snd (run ''B''
       [Op_add_var ''x0'' (Finite 0) PosInf (Finite 0) ''C'' None,
        Op_add_var ''x1'' (Finite 0) PosInf (Finite 0) ''C'' None,
        Op_add_var ''x2'' (Finite 0) PosInf (Finite 0) ''C'' None]
       (empty_model (empty_engine :: (unit, unit) engine))))) [0, 1, 2] = [0, 1, 2] \<and>
   VarList_len (snd (run ''B''
       [Op_add_var ''x0'' (Finite 0) PosInf (Finite 0) ''C'' None,
        Op_add_var ''x1'' (Finite 0) PosInf (Finite 0) ''C'' None,
        Op_add_var ''x2'' (Finite 0) PosInf (Finite 0) ''C'' None]
       (empty_model (empty_engine :: (unit, unit) engine)))) = 3"
proof -
  let ?e = "empty_model (empty_engine :: (unit, unit) engine)"
  let ?adds = "[Op_add_var ''x0'' (Finite 0) PosInf (Finite 0) ''C'' None,
        Op_add_var ''x1'' (Finite 0) PosInf (Finite 0) ''C'' None,
        Op_add_var ''x2'' (Finite 0) PosInf (Finite 0) ''C'' None] :: (unit, unit) op list"
  have a: "vars ?e = []" and b: "constrs ?e = []" by (simp_all add: empty_model_def)
  have l: "list_all is_add_var ?adds" by simp
  have v: "vars (snd (run ''B'' ?adds ?e)) = [0, 1, 2]"
    by (simp add: empty_model_def VarList_add_def Var_def Let_def)
  note t = index_invariant_kept [OF a b, of "''B''" ?adds]
  from t l have 1: "fst (run ''B'' ?adds ?e) = map Some (vars (snd (run ''B'' ?adds ?e)))"
    and 2: "map (idx (snd (run ''B'' ?adds ?e))) (vars (snd (run ''B'' ?adds ?e))) =
      map int [0..<length ?adds]"
    and 3: "VarList_len (snd (run ''B'' ?adds ?e)) = int (length ?adds)"
    by blast+
  have 1: "fst (run ''B'' ?adds ?e) = [Some 0, Some 1, Some 2]" using 1 unfolding v by simp
  have 2: "map (idx (snd (run ''B'' ?adds ?e))) [0, 1, 2] = [0, 1, 2]"
    using 2 unfolding v by (simp add: upt_rec)
  have 3: "VarList_len (snd (run ''B'' ?adds ?e)) = 3" using 3 by simp
  from index_invariant_kept [OF a b, of "''B''"] 1 2 3 show ?thesis by blast
qed

end
